theory Spec2Isabelle
  imports Main "HOL-Library.AList" "HOL-Library.DAList" "HOL-Library.Sublist"
begin

section \<open>Values shared by the handlers\<close>

text \<open>
  JSON values as the handlers build and inspect them. JavaScript numbers that occur in the
  modelled code (status codes, error codes, timestamps in milliseconds) are integers.
\<close>

datatype json =
    JNull
  | JBool bool
  | JNum int
  | JStr string
  | JArr "json list"
  | JObj "(string \<times> json) list"

text \<open>
  A thrown JavaScript \<open>Error\<close>: its \<open>message\<close>, and whether
  \<open>axios.isAxiosError\<close> holds of it.
\<close>

datatype js_error = JsError (message: string) (isAxiosError: bool)

text \<open>
  What goes out on a response stream. A chunk \<open>data: ${JSON.stringify(v)}\n\n\<close>
  written by a handler of this repository is kept as the JSON value \<open>v\<close>; a chunk
  written by the SDK transport is kept as its text.
\<close>

datatype frame = DataJson json | SdkFrame string

text \<open>The express response object \<open>res\<close>, as far as the handlers use it.\<close>

record response =
  headers :: "(string \<times> string) list"
  headersSent :: bool
  statusCode :: nat
  jsonBody :: "json option"
  chunks :: "frame list"

definition fresh_response :: response where
  "fresh_response =
     \<lparr>headers = [], headersSent = False, statusCode = 200, jsonBody = None, chunks = []\<rparr>"

definition setHeader :: "string \<Rightarrow> string \<Rightarrow> response \<Rightarrow> response" where
  "setHeader k v res = res\<lparr>headers := AList.update k v (headers res)\<rparr>"

definition status_json :: "nat \<Rightarrow> json \<Rightarrow> response \<Rightarrow> response" where
  "status_json code body res =
     res\<lparr>statusCode := code, jsonBody := Some body, headersSent := True\<rparr>"

definition res_json :: "json \<Rightarrow> response \<Rightarrow> response" where
  "res_json body res = res\<lparr>jsonBody := Some body, headersSent := True\<rparr>"

definition res_write :: "frame \<Rightarrow> response \<Rightarrow> response" where
  "res_write f res = res\<lparr>chunks := chunks res @ [f], headersSent := True\<rparr>"

text \<open>
  A call into the MCP SDK (\<open>server.connect\<close>, \<open>transport.handlePostMessage\<close>) is
  outside this repository. Its visible behaviour on one call is given by the environment:
  the status it may send with \<open>writeHead\<close>, the chunks it writes on the response, and
  the error it may throw after that.
\<close>

record sdk_effect =
  e_status :: "nat option"
  e_frames :: "frame list"
  e_thrown :: "js_error option"

definition apply_effect :: "sdk_effect \<Rightarrow> response \<Rightarrow> response" where
  "apply_effect eff res =
     (let res1 = (case e_status eff of
                    None \<Rightarrow> res
                  | Some code \<Rightarrow> res\<lparr>statusCode := code, headersSent := True\<rparr>)
      in if e_frames eff = [] then res1
         else res1\<lparr>chunks := chunks res1 @ e_frames eff, headersSent := True\<rparr>)"

section \<open>The session table of \<open>MCPStreamServer\<close>\<close>

type_synonym mcp_server = nat

record sse_transport =
  sessionId :: string

record session =
  server :: mcp_server
  transport :: sse_transport
  lastActivity :: int

text \<open>
  \<open>sessions\<close> is a JavaScript \<open>Map\<close>: keys are unique, iteration follows insertion
  order, \<open>set\<close> on a present key keeps its position. \<open>closeCalls\<close> lists the servers
  on which \<open>close()\<close> has been called, \<open>hooks\<close> the session ids whose request has the
  \<open>close\<close>/\<open>error\<close> listeners attached, \<open>logged\<close> the errors passed to
  \<open>console.error\<close> by a catch block.
\<close>

record state =
  sessions :: "(string, session) alist"
  closeCalls :: "mcp_server list"
  hooks :: "string list"
  logged :: "js_error list"

definition initial_state :: state where
  "initial_state = \<lparr>sessions = DAList.empty, closeCalls = [], hooks = [], logged = []\<rparr>"

abbreviation entries :: "state \<Rightarrow> (string \<times> session) list" where
  "entries st \<equiv> DAList.impl_of (sessions st)"

text \<open>What \<open>server.close()\<close> does when called: \<open>Some e\<close> when it throws \<open>e\<close>.\<close>

type_synonym close_oracle = "mcp_server \<Rightarrow> js_error option"

subsection \<open>\<open>cleanupSession\<close>\<close>

definition cleanupSession :: "close_oracle \<Rightarrow> string \<Rightarrow> state \<Rightarrow> state" where
  "cleanupSession close sid st =
     (case DAList.lookup (sessions st) sid of
        None \<Rightarrow> st
      | Some s \<Rightarrow>
          (let st1 = st\<lparr>closeCalls := closeCalls st @ [server s]\<rparr>;
               st2 = (case close (server s) of
                        None \<Rightarrow> st1
                      | Some e \<Rightarrow> st1\<lparr>logged := logged st1 @ [e]\<rparr>)
           in st2\<lparr>sessions := DAList.delete sid (sessions st2)\<rparr>))"

subsection \<open>\<open>DELETE /session/:id\<close>\<close>

definition delete_session :: "close_oracle \<Rightarrow> string \<Rightarrow> state \<Rightarrow> state \<times> response" where
  "delete_session close sid st =
     (if DAList.lookup (sessions st) sid \<noteq> None
      then (cleanupSession close sid st,
            res_json (JObj [(''message'',
              JStr (''Session '' @ sid @ '' terminated successfully''))]) fresh_response)
      else (st,
            status_json 404 (JObj [(''error'',
              JStr (''Session '' @ sid @ '' not found''))]) fresh_response))"

subsection \<open>The sweep of \<open>startSessionCleanup\<close>\<close>

definition sessionTimeout :: int where
  "sessionTimeout = 30 * 60 * 1000"

definition cleanupInterval :: int where
  "cleanupInterval = 5 * 60 * 1000"

text \<open>
  The \<open>for ... of\<close> loop over the map. Its body deletes at most the entry it is
  visiting, so the entries still to visit are the rest of the list.
\<close>

fun sweep_loop :: "close_oracle \<Rightarrow> int \<Rightarrow> (string \<times> session) list \<Rightarrow> state \<Rightarrow> state" where
  "sweep_loop close now [] st = st"
| "sweep_loop close now ((sid, s) # rest) st =
     sweep_loop close now rest
       (if now - lastActivity s > sessionTimeout then cleanupSession close sid st else st)"

definition sweep :: "close_oracle \<Rightarrow> int \<Rightarrow> state \<Rightarrow> state" where
  "sweep close now st = sweep_loop close now (entries st) st"

subsection \<open>The \<open>SIGINT\<close> handler\<close>

text \<open>The loop that closes every session before the process exits.\<close>

fun shutdown_loop :: "close_oracle \<Rightarrow> (string \<times> session) list \<Rightarrow> state \<Rightarrow> state" where
  "shutdown_loop close [] st = st"
| "shutdown_loop close ((sid, s) # rest) st =
     shutdown_loop close rest (cleanupSession close sid st)"

definition shutdown :: "close_oracle \<Rightarrow> state \<Rightarrow> state" where
  "shutdown close st = shutdown_loop close (entries st) st"

subsection \<open>\<open>POST /message\<close>\<close>

text \<open>
  \<open>req.query.sessionId\<close> and \<open>req.headers['x-session-id']\<close> are a string or
  \<open>undefined\<close>; \<open>a || b\<close> takes \<open>b\<close> when \<open>a\<close> is \<open>undefined\<close> or empty.
\<close>

definition truthy_str :: "string option \<Rightarrow> bool" where
  "truthy_str v = (case v of None \<Rightarrow> False | Some s \<Rightarrow> s \<noteq> [])"

definition js_or :: "string option \<Rightarrow> string option \<Rightarrow> string option" where
  "js_or a b = (if truthy_str a then a else b)"

record post_request =
  query_sessionId :: "string option"
  header_sessionId :: "string option"
  post_now :: int
  handlePostMessage :: sdk_effect

fun find_session :: "string \<Rightarrow> (string \<times> session) list \<Rightarrow> (string \<times> session) option" where
  "find_session rid [] = None"
| "find_session rid ((k, s) # rest) =
     (if sessionId (transport s) = rid \<or> k = rid then Some (k, s)
      else find_session rid rest)"

definition not_found :: "string \<Rightarrow> response" where
  "not_found rid =
     status_json 404 (JObj [(''error'', JStr (''Session '' @ rid @ '' not found''))])
       fresh_response"

text \<open>
  The first half of the handler: the requested id and the search of the table. \<open>Inl\<close>
  is the response of an early \<open>return\<close>, \<open>Inr\<close> the pair
  \<open>(actualSessionId, foundSession)\<close>.
\<close>

definition requestedSessionId :: "post_request \<Rightarrow> string option" where
  "requestedSessionId req = js_or (query_sessionId req) (header_sessionId req)"

definition resolve_session :: "post_request \<Rightarrow> state \<Rightarrow> response + (string \<times> session)" where
  "resolve_session req st =
     (case requestedSessionId req of
        None \<Rightarrow> Inl (status_json 400 (JObj [(''error'',
                  JStr ''Session ID required in query parameter or X-Session-ID header'')])
                  fresh_response)
      | Some rid \<Rightarrow>
          if rid = []
          then Inl (status_json 400 (JObj [(''error'',
                  JStr ''Session ID required in query parameter or X-Session-ID header'')])
                  fresh_response)
          else
            (case find_session rid (entries st) of
               None \<Rightarrow> Inl (not_found rid)
             | Some (actualSessionId, foundSession) \<Rightarrow>
                 if actualSessionId = [] then Inl (not_found rid)
                 else Inr (actualSessionId, foundSession)))"

definition post_message :: "post_request \<Rightarrow> state \<Rightarrow> state \<times> response" where
  "post_message req st =
     (case resolve_session req st of
        Inl res \<Rightarrow> (st, res)
      | Inr (actualSessionId, foundSession) \<Rightarrow>
          (let st1 = st\<lparr>sessions :=
                 DAList.update actualSessionId
                   (foundSession\<lparr>lastActivity := post_now req\<rparr>) (sessions st)\<rparr>;
               res1 = apply_effect (handlePostMessage req) fresh_response
           in case e_thrown (handlePostMessage req) of
                None \<Rightarrow> (st1, res1)
              | Some e \<Rightarrow>
                  (st1\<lparr>logged := logged st1 @ [e]\<rparr>,
                   if \<not> headersSent res1
                   then status_json 500 (JObj [(''error'', JStr (message e))]) res1
                   else res1)))"

subsection \<open>\<open>GET /sse\<close>\<close>

text \<open>
  What the environment supplies to one stream-open request: the value of
  \<open>randomUUID()\<close>, the value of \<open>Date.now()\<close>, and the outcome of each call into the
  SDK (\<open>new Server\<close>, the two \<open>setRequestHandler\<close> calls of \<open>setupZabbixTools\<close>,
  \<open>new SSEServerTransport\<close>, \<open>server.connect\<close>).
\<close>

record sse_request =
  randomUUID :: string
  sse_now :: int
  newServer :: "js_error + mcp_server"
  setupZabbixTools :: "js_error option"
  newTransport :: "js_error + sse_transport"
  connect :: sdk_effect

definition sse_headers :: "response \<Rightarrow> response" where
  "sse_headers res =
     setHeader ''Access-Control-Allow-Headers'' ''Cache-Control''
       (setHeader ''Access-Control-Allow-Origin'' ''*''
         (setHeader ''Connection'' ''keep-alive''
           (setHeader ''Cache-Control'' ''no-cache''
             (setHeader ''Content-Type'' ''text/event-stream'' res))))"

text \<open>The catch block of the handler.\<close>

definition sse_catch :: "js_error \<Rightarrow> state \<Rightarrow> response \<Rightarrow> state \<times> response" where
  "sse_catch e st res =
     (st\<lparr>logged := logged st @ [e]\<rparr>,
      if \<not> headersSent res
      then status_json 500 (JObj [(''error'', JStr ''Failed to create SSE session'')]) res
      else res)"

text \<open>
  The handler up to \<open>await server.connect(transport)\<close>: \<open>Inr\<close> carries the state in
  which \<open>connect\<close> is called, \<open>Inl\<close> the result of the catch block.
\<close>

definition sse_register ::
  "sse_request \<Rightarrow> state \<Rightarrow> (state \<times> response) + (state \<times> response)" where
  "sse_register req st =
     (let res1 = sse_headers fresh_response
      in case newServer req of
           Inl e \<Rightarrow> Inl (sse_catch e st res1)
         | Inr srv \<Rightarrow>
             (case setupZabbixTools req of
                Some e \<Rightarrow> Inl (sse_catch e st res1)
              | None \<Rightarrow>
                  (case newTransport req of
                     Inl e \<Rightarrow> Inl (sse_catch e st res1)
                   | Inr tr \<Rightarrow>
                       Inr (st\<lparr>sessions :=
                              DAList.update (randomUUID req)
                                \<lparr>server = srv, transport = tr, lastActivity = sse_now req\<rparr>
                                (sessions st)\<rparr>,
                            res1))))"

definition session_announcement :: "string \<Rightarrow> frame" where
  "session_announcement sid =
     DataJson (JObj [(''type'', JStr ''session''), (''sessionId'', JStr sid)])"

text \<open>The handler from \<open>server.connect\<close> on.\<close>

definition sse_connect :: "sse_request \<Rightarrow> state \<Rightarrow> response \<Rightarrow> state \<times> response" where
  "sse_connect req st res =
     (let res2 = apply_effect (connect req) res
      in case e_thrown (connect req) of
           Some e \<Rightarrow> sse_catch e st res2
         | None \<Rightarrow>
             (st\<lparr>hooks := hooks st @ [randomUUID req]\<rparr>,
              res_write (session_announcement (randomUUID req)) res2))"

definition sse_open :: "sse_request \<Rightarrow> state \<Rightarrow> state \<times> response" where
  "sse_open req st =
     (case sse_register req st of
        Inl r \<Rightarrow> r
      | Inr (st1, res1) \<Rightarrow> sse_connect req st1 res1)"

subsection \<open>Runs of the server\<close>

text \<open>
  The handlers that touch the session table, as events. \<open>Disconnect sid\<close> is the
  \<open>close\<close> or \<open>error\<close> event of the request that opened \<open>sid\<close>; it reaches
  \<open>cleanupSession\<close> only when the listeners were attached. \<open>Sweep\<close> is a tick of
  the cleanup timer, \<open>Shutdown\<close> the \<open>SIGINT\<close> handler. A handler is one step:
  the two handlers that \<open>await\<close> (\<open>GET /sse\<close>, \<open>POST /message\<close>) read and write
  the table only before their \<open>await\<close>, so what runs in between does not change what
  they do to it.
\<close>

datatype event =
    Open sse_request
  | Message post_request
  | Delete string
  | Disconnect string
  | Sweep int
  | Shutdown

fun step :: "close_oracle \<Rightarrow> event \<Rightarrow> state \<Rightarrow> state" where
  "step close (Open req) st = fst (sse_open req st)"
| "step close (Message req) st = fst (post_message req st)"
| "step close (Delete sid) st = fst (delete_session close sid st)"
| "step close (Disconnect sid) st =
     (if sid \<in> set (hooks st) then cleanupSession close sid st else st)"
| "step close (Sweep now) st = sweep close now st"
| "step close Shutdown st = shutdown close st"

text \<open>The reading of \<open>Date.now()\<close> an event takes, if it takes one.\<close>

fun event_time :: "event \<Rightarrow> int option" where
  "event_time (Open req) = Some (sse_now req)"
| "event_time (Message req) = Some (post_now req)"
| "event_time (Sweep now) = Some now"
| "event_time _ = None"

fun run :: "close_oracle \<Rightarrow> event list \<Rightarrow> state \<Rightarrow> state" where
  "run close [] st = st"
| "run close (ev # evs) st = run close evs (step close ev st)"

text \<open>Successive readings of \<open>Date.now()\<close> do not go back, starting from \<open>c\<close>.\<close>

fun clock_ok :: "int \<Rightarrow> event list \<Rightarrow> bool" where
  "clock_ok c [] = True"
| "clock_ok c (ev # evs) =
     (case event_time ev of
        None \<Rightarrow> clock_ok c evs
      | Some t \<Rightarrow> c \<le> t \<and> clock_ok t evs)"

text \<open>No stored \<open>lastActivity\<close> lies after the reading \<open>c\<close>.\<close>

definition activity_bounded :: "int \<Rightarrow> state \<Rightarrow> bool" where
  "activity_bounded c st = list_all (\<lambda>(k, s). lastActivity s \<le> c) (entries st)"

text \<open>The id \<open>k\<close> has an entry in the table before and after every event of the run.\<close>

fun live_through :: "close_oracle \<Rightarrow> string \<Rightarrow> event list \<Rightarrow> state \<Rightarrow> bool" where
  "live_through close k [] st = (DAList.lookup (sessions st) k \<noteq> None)"
| "live_through close k (ev # evs) st =
     (DAList.lookup (sessions st) k \<noteq> None \<and> live_through close k evs (step close ev st))"

subsection \<open>A table with two sessions\<close>

definition session_a :: session where
  "session_a = \<lparr>server = 1, transport = \<lparr>sessionId = ''ta''\<rparr>, lastActivity = 0\<rparr>"

definition session_b :: session where
  "session_b = \<lparr>server = 2, transport = \<lparr>sessionId = ''tb''\<rparr>, lastActivity = 1500000\<rparr>"

definition two_sessions :: state where
  "two_sessions =
     \<lparr>sessions = DAList.update ''b'' session_b (DAList.update ''a'' session_a DAList.empty),
      closeCalls = [], hooks = [''a'', ''b''], logged = []\<rparr>"

definition no_throw :: close_oracle where
  "no_throw srv = None"

definition accepted :: sdk_effect where
  "accepted = \<lparr>e_status = Some 202, e_frames = [], e_thrown = None\<rparr>"

definition refresh_run :: "event list" where
  "refresh_run =
     [Message \<lparr>query_sessionId = Some ''a'', header_sessionId = None, post_now = 1600000,
               handlePostMessage = accepted\<rparr>,
      Sweep 1700000,
      Message \<lparr>query_sessionId = None, header_sessionId = Some ''tb'', post_now = 1800000,
               handlePostMessage = accepted\<rparr>]"

text \<open>A dispatch to \<open>b\<close> for which \<open>Date.now()\<close> reads 5.\<close>

definition clock_back_run :: "event list" where
  "clock_back_run =
     [Message \<lparr>query_sessionId = Some ''b'', header_sessionId = None, post_now = 5,
               handlePostMessage = accepted\<rparr>]"

subsection \<open>Stream-open requests\<close>

text \<open>
  The error thrown by a step of the handler that comes before \<open>sessions.set\<close>, if
  one of them throws.
\<close>

definition setup_failure :: "sse_request \<Rightarrow> js_error option" where
  "setup_failure req =
     (case newServer req of
        Inl e \<Rightarrow> Some e
      | Inr srv \<Rightarrow>
          (case setupZabbixTools req of
             Some e \<Rightarrow> Some e
           | None \<Rightarrow> (case newTransport req of Inl e \<Rightarrow> Some e | Inr tr \<Rightarrow> None)))"

definition failed_to_create :: json where
  "failed_to_create = JObj [(''error'', JStr ''Failed to create SSE session'')]"

text \<open>
  The chunk the SDK transport writes when \<open>server.connect\<close> starts it, as the
  repository's connection test shows it:
  \<open>event: endpoint\ndata: /message?sessionId=<transport id>\n\n\<close>.
\<close>

definition endpoint_event :: "string \<Rightarrow> frame" where
  "endpoint_event tid =
     SdkFrame (''event: endpoint\<newline>data: /message?sessionId='' @ tid @ ''\<newline>\<newline>'')"

definition open_ok :: sse_request where
  "open_ok =
     \<lparr>randomUUID = ''s1'', sse_now = 1000, newServer = Inr 3, setupZabbixTools = None,
      newTransport = Inr \<lparr>sessionId = ''t1''\<rparr>,
      connect = \<lparr>e_status = Some 200, e_frames = [endpoint_event ''t1''], e_thrown = None\<rparr>\<rparr>"

definition open_connect_fails :: sse_request where
  "open_connect_fails =
     open_ok\<lparr>connect :=
       \<lparr>e_status = None, e_frames = [], e_thrown = Some (JsError ''connect failed'' False)\<rparr>\<rparr>"

definition open_connect_fails_late :: sse_request where
  "open_connect_fails_late =
     open_ok\<lparr>connect :=
       \<lparr>e_status = Some 200, e_frames = [],
        e_thrown = Some (JsError ''connect failed'' False)\<rparr>\<rparr>"

definition open_server_fails :: sse_request where
  "open_server_fails = open_ok\<lparr>newServer := Inl (JsError ''no server'' False)\<rparr>"

section \<open>The read-only check\<close>

text \<open>\<open>s.includes(sub)\<close>: \<open>sub\<close> occurs in \<open>s\<close> as a contiguous run of characters.\<close>

fun js_includes :: "string \<Rightarrow> string \<Rightarrow> bool" where
  "js_includes [] sub = (sub = [])"
| "js_includes (c # cs) sub = (prefix sub (c # cs) \<or> js_includes cs sub)"

definition not_allowed :: "string \<Rightarrow> js_error" where
  "not_allowed operation =
     JsError (''Operation '' @ [CHR 0x27] @ operation @ [CHR 0x27] @
              '' is not allowed in read-only mode'') False"

definition validateReadOnly :: "bool \<Rightarrow> string \<Rightarrow> js_error + unit" where
  "validateReadOnly readOnly operation =
     (if readOnly \<and> \<not> list_ex (\<lambda>op. js_includes operation op) [''get'', ''list'', ''export'']
      then Inl (not_allowed operation)
      else Inr ())"

section \<open>\<open>ZabbixClient\<close>\<close>

text \<open>
  One \<open>client.post('/api_jsonrpc.php', payload, {headers})\<close>: the payload fields and
  the \<open>Authorization\<close> header it goes out with.
\<close>

record post =
  p_method :: string
  p_params :: json
  p_id :: nat
  p_auth :: "string option"
  p_authorization :: "string option"

record api_response =
  r_error :: "(int \<times> string) option"
  r_result :: json

text \<open>
  The upstream server is outside the repository. The environment gives its behaviour: the
  outcome of a post, which may depend on all posts made so far (the last one being the
  current one). \<open>Rejects\<close> is a rejected promise (a network or HTTP error),
  \<open>Responds\<close> carries \<open>response.data\<close>.
\<close>

datatype reply = Rejects js_error | Responds api_response

type_synonym upstream = "post list \<Rightarrow> reply"

record zabbix_config =
  cfg_token :: "string option"
  cfg_user :: "string option"
  cfg_password :: "string option"

record client =
  config :: zabbix_config
  authToken :: "string option"
  requestId :: nat
  sent :: "post list"

definition isAuthenticated :: "client \<Rightarrow> bool" where
  "isAuthenticated c = truthy_str (authToken c)"

subsection \<open>Numbers in template strings\<close>

definition digit :: "nat \<Rightarrow> char" where
  "digit n = ''0123456789'' ! n"

function show_nat :: "nat \<Rightarrow> string" where
  "show_nat n = (if n < 10 then [digit n] else show_nat (n div 10) @ [digit (n mod 10)])"
  by pat_completeness auto
termination
  by (relation "measure id") auto

declare show_nat.simps [simp del]

definition show_int :: "int \<Rightarrow> string" where
  "show_int i = (if i < 0 then CHR ''-'' # show_nat (nat (- i)) else show_nat (nat i))"

subsection \<open>\<open>request\<close>\<close>

definition maxAuthAttempts :: nat where
  "maxAuthAttempts = 2"

text \<open>
  The first statement of the \<open>try\<close> block: which credentials attempt number
  \<open>authAttempts\<close> puts on the request. The header and the payload are mutated in
  place, so a later attempt starts from what the earlier one left.
\<close>

definition set_credentials :: "string option \<Rightarrow> string \<Rightarrow> nat \<Rightarrow> post \<Rightarrow> post" where
  "set_credentials tok method authAttempts p =
     (if truthy_str tok \<and> method \<noteq> ''user.login'' \<and> method \<noteq> ''apiinfo.version''
      then (if authAttempts = 0
            then p\<lparr>p_authorization := Some (''Bearer '' @ the tok)\<rparr>
            else p\<lparr>p_authorization := None, p_auth := tok\<rparr>)
      else p)"

text \<open>How one pass through the loop body ends.\<close>

datatype attempt = Retry | Done api_response | Fail js_error

text \<open>The \<open>catch\<close> block, for the error \<open>e\<close> thrown in the \<open>try\<close> block.\<close>

definition request_catch :: "nat \<Rightarrow> js_error \<Rightarrow> attempt" where
  "request_catch authAttempts e =
     (if authAttempts < maxAuthAttempts - 1 \<and> js_includes (message e) ''auth'' then Retry
      else if isAxiosError e then Fail (JsError (''HTTP Error: '' @ message e) False)
      else Fail (JsError (''Zabbix API request failed: '' @ message e) False))"

text \<open>The rest of the \<open>try\<close> block, from the reply to the post on.\<close>

definition attempt_outcome :: "nat \<Rightarrow> reply \<Rightarrow> attempt" where
  "attempt_outcome authAttempts r =
     (case r of
        Rejects e \<Rightarrow> request_catch authAttempts e
      | Responds data \<Rightarrow>
          (case r_error data of
             None \<Rightarrow> Done data
           | Some (code, msg) \<Rightarrow>
               if code = - 32602 \<and> js_includes msg ''auth'' \<and> authAttempts = 0 then Retry
               else if code = - 32602 \<and> js_includes msg ''Not authorized''
               then request_catch authAttempts
                      (JsError (''Zabbix API Authorization Error: '' @ msg @ '' ('' @
                                show_int code @ '')'') False)
               else request_catch authAttempts
                      (JsError (''Zabbix API Error: '' @ msg @ '' ('' @
                                show_int code @ '')'') False)))"

text \<open>
  The \<open>while (authAttempts < maxAuthAttempts)\<close> loop. \<open>p\<close> is the payload with
  the header as the previous pass left them, \<open>log\<close> the posts made so far.
\<close>

function request_loop ::
  "upstream \<Rightarrow> string option \<Rightarrow> string \<Rightarrow> nat \<Rightarrow> post \<Rightarrow> post list \<Rightarrow>
   (js_error + api_response) \<times> post list" where
  "request_loop up tok method authAttempts p log =
     (if authAttempts < maxAuthAttempts
      then (let p1 = set_credentials tok method authAttempts p;
                log1 = log @ [p1]
            in case attempt_outcome authAttempts (up log1) of
                 Retry \<Rightarrow> request_loop up tok method (authAttempts + 1) p1 log1
               | Done data \<Rightarrow> (Inr data, log1)
               | Fail e \<Rightarrow> (Inl e, log1))
      else (Inl (JsError ''All authentication methods failed'' False), log))"
  by pat_completeness auto
termination
  by (relation "measure (\<lambda>(up, tok, method, authAttempts, p, log). maxAuthAttempts - authAttempts)")
    auto

declare request_loop.simps [simp del]

definition request ::
  "upstream \<Rightarrow> string \<Rightarrow> json \<Rightarrow> client \<Rightarrow> (js_error + api_response) \<times> client" where
  "request up method params c =
     (let payload = \<lparr>p_method = method, p_params = params, p_id = requestId c,
                      p_auth = None, p_authorization = None\<rparr>;
          c1 = c\<lparr>requestId := requestId c + 1\<rparr>;
          (r, log) = request_loop up (authToken c1) method 0 payload (sent c1)
      in (r, c1\<lparr>sent := log\<rparr>))"

text \<open>The posts made by a call that took the client from \<open>c\<close> to \<open>c'\<close>.\<close>

definition posts_between :: "client \<Rightarrow> client \<Rightarrow> post list" where
  "posts_between c c' = drop (length (sent c)) (sent c')"

text \<open>
  What the loop takes, on its first pass, for an authentication error it can recover from:
  a rejected post or an API error whose message contains \<open>auth\<close>.
\<close>

definition recoverable_auth_error :: "reply \<Rightarrow> bool" where
  "recoverable_auth_error r =
     (case r of
        Rejects e \<Rightarrow> js_includes (message e) ''auth''
      | Responds data \<Rightarrow>
          (case r_error data of
             None \<Rightarrow> False
           | Some (code, msg) \<Rightarrow> js_includes msg ''auth''))"

text \<open>The request as the first pass sends it, and as the second pass sends it.\<close>

definition bearer_post :: "string \<Rightarrow> json \<Rightarrow> nat \<Rightarrow> string \<Rightarrow> post" where
  "bearer_post method params n tok =
     \<lparr>p_method = method, p_params = params, p_id = n, p_auth = None,
      p_authorization = Some (''Bearer '' @ tok)\<rparr>"

definition legacy_post :: "string \<Rightarrow> json \<Rightarrow> nat \<Rightarrow> string \<Rightarrow> post" where
  "legacy_post method params n tok =
     \<lparr>p_method = method, p_params = params, p_id = n, p_auth = Some tok,
      p_authorization = None\<rparr>"

subsection \<open>\<open>login\<close>\<close>

text \<open>
  \<open>verifyConnectivity()\<close> as \<open>login\<close> calls it (\<open>testAuth\<close> is
  \<open>false\<close>): the \<open>connected\<close> flag of its result.
\<close>

definition verifyConnectivity :: "upstream \<Rightarrow> client \<Rightarrow> bool \<times> client" where
  "verifyConnectivity up c =
     (case request up ''apiinfo.version'' (JObj []) c of
        (Inr versionResponse, c1) \<Rightarrow> (True, c1)
      | (Inl e, c1) \<Rightarrow> (False, c1))"

text \<open>
  \<open>this.authToken = response.result\<close>: the result of \<open>user.login\<close> is a
  string by the contract of the API; any other result is taken as no token.
\<close>

definition token_of_result :: "json \<Rightarrow> string option" where
  "token_of_result v = (case v of JStr t \<Rightarrow> Some t | _ \<Rightarrow> None)"

text \<open>The \<open>catch\<close> block of the username/password branch.\<close>

definition login_failure :: "js_error \<Rightarrow> js_error" where
  "login_failure e =
     (if js_includes (message e) ''Login name or password is incorrect''
      then JsError ''Invalid username or password'' False
      else if js_includes (message e) ''User is blocked''
      then JsError ''User account is blocked'' False
      else if js_includes (message e) ''GUI access disabled''
      then JsError ''GUI access is disabled for this user'' False
      else JsError (''Authentication failed: '' @ message e) False)"

definition login :: "upstream \<Rightarrow> client \<Rightarrow> (js_error + unit) \<times> client" where
  "login up c =
     (case verifyConnectivity up c of
        (False, c1) \<Rightarrow>
          (Inl (JsError
             ''Cannot connect to Zabbix API. Please verify the URL and network connectivity.''
             False), c1)
      | (True, c1) \<Rightarrow>
          if truthy_str (cfg_token (config c1))
          then (let c2 = c1\<lparr>authToken := cfg_token (config c1)\<rparr>
                in case request up ''host.get'' (JObj [(''limit'', JNum 1)]) c2 of
                     (Inr r, c3) \<Rightarrow> (Inr (), c3)
                   | (Inl e, c3) \<Rightarrow> (Inl (JsError ''Invalid API token provided'' False), c3))
          else if \<not> truthy_str (cfg_user (config c1)) \<or> \<not> truthy_str (cfg_password (config c1))
          then (Inl (JsError ''Either token or user/password must be provided'' False), c1)
          else
            (case request up ''user.login''
                    (JObj [(''username'', JStr (the (cfg_user (config c1)))),
                           (''password'', JStr (the (cfg_password (config c1))))]) c1 of
               (Inl e, c2) \<Rightarrow> (Inl (login_failure e), c2)
             | (Inr response, c2) \<Rightarrow>
                 (let c3 = c2\<lparr>authToken := token_of_result (r_result response)\<rparr>
                  in case request up ''host.get'' (JObj [(''limit'', JNum 1)]) c3 of
                       (Inr r, c4) \<Rightarrow> (Inr (), c4)
                     | (Inl e, c4) \<Rightarrow> (Inl (login_failure e), c4))))"

section \<open>The tool handler of \<open>setupZabbixTools\<close>\<close>

text \<open>
  \<open>request.params.arguments\<close> is an object or \<open>undefined\<close>. \<open>field\<close> is
  \<open>args?.k\<close>, \<open>missing\<close> is \<open>!args || !args.k\<close>, \<open>params_of\<close> is
  \<open>args || {}\<close> (also what the default \<open>params = {}\<close> of \<open>request\<close> makes of
  \<open>undefined\<close>).
\<close>

type_synonym arguments = "(string \<times> json) list option"

fun truthy :: "json \<Rightarrow> bool" where
  "truthy JNull = False"
| "truthy (JBool b) = b"
| "truthy (JNum n) = (n \<noteq> 0)"
| "truthy (JStr s) = (s \<noteq> [])"
| "truthy (JArr xs) = True"
| "truthy (JObj kvs) = True"

definition field :: "arguments \<Rightarrow> string \<Rightarrow> json option" where
  "field args k = (case args of None \<Rightarrow> None | Some kvs \<Rightarrow> map_of kvs k)"

definition missing :: "arguments \<Rightarrow> string \<Rightarrow> bool" where
  "missing args k = (case field args k of None \<Rightarrow> True | Some v \<Rightarrow> \<not> truthy v)"

definition params_of :: "arguments \<Rightarrow> json" where
  "params_of args = (case args of None \<Rightarrow> JObj [] | Some kvs \<Rightarrow> JObj kvs)"

text \<open>\<open>Array.isArray(v) ? v : [v]\<close>, for a field that is present.\<close>

definition as_array :: "json option \<Rightarrow> json" where
  "as_array v = (case v of Some (JArr xs) \<Rightarrow> JArr xs | Some x \<Rightarrow> JArr [x] | None \<Rightarrow> JArr [])"

text \<open>\<open>args?.k || d\<close>.\<close>

definition field_or :: "arguments \<Rightarrow> string \<Rightarrow> json \<Rightarrow> json" where
  "field_or args k d = (case field args k of None \<Rightarrow> d | Some v \<Rightarrow> if truthy v then v else d)"

text \<open>
  The content a tool returns, up to its text: \<open>FromUpstream\<close> is a text made from
  the response of the upstream server, \<open>Prepared\<close> a text that the tool of that name
  makes from its arguments and the state of the client alone.
\<close>

datatype content = FromUpstream api_response | Prepared string

type_synonym tool_result = "(js_error + content) \<times> client"

text \<open>A verb of the client (\<open>hostGet\<close>, \<open>itemCreate\<close>, ...): one \<open>request\<close>.\<close>

definition verb :: "upstream \<Rightarrow> string \<Rightarrow> json \<Rightarrow> client \<Rightarrow> tool_result" where
  "verb up method params c =
     (case request up method params c of
        (Inl e, c1) \<Rightarrow> (Inl e, c1)
      | (Inr response, c1) \<Rightarrow> (Inr (FromUpstream response), c1))"

text \<open>\<open>this.validateReadOnly(name)\<close> followed by the rest of the case.\<close>

definition guarded :: "bool \<Rightarrow> string \<Rightarrow> (client \<Rightarrow> tool_result) \<Rightarrow> client \<Rightarrow> tool_result" where
  "guarded ro name rest c =
     (case validateReadOnly ro name of
        Inl e \<Rightarrow> (Inl e, c)
      | Inr u \<Rightarrow> rest c)"

text \<open>\<open>if (!args || !args.k1 || ...) throw new Error(msg)\<close> followed by the rest.\<close>

definition required ::
  "arguments \<Rightarrow> string list \<Rightarrow> string \<Rightarrow> (client \<Rightarrow> tool_result) \<Rightarrow> client \<Rightarrow> tool_result" where
  "required args ks msg rest c =
     (if list_ex (missing args) ks then (Inl (JsError msg False), c) else rest c)"

definition prepared :: "string \<Rightarrow> client \<Rightarrow> tool_result" where
  "prepared name c = (Inr (Prepared name), c)"

text \<open>The private \<open>verifyConnectivity\<close> of the server: its own try and catch.\<close>

definition server_verifyConnectivity :: "upstream \<Rightarrow> client \<Rightarrow> tool_result" where
  "server_verifyConnectivity up c =
     (case request up ''apiinfo.version'' (JObj []) c of
        (Inl e, c1) \<Rightarrow> (Inr (Prepared ''verify_connectivity''), c1)
      | (Inr version, c1) \<Rightarrow> (Inr (FromUpstream version), c1))"

definition search_by_name :: "json \<Rightarrow> json" where
  "search_by_name pattern =
     JObj [(''output'', JStr ''extend''), (''search'', JObj [(''name'', pattern)])]"

definition discoverDiskDevices :: "upstream \<Rightarrow> arguments \<Rightarrow> client \<Rightarrow> tool_result" where
  "discoverDiskDevices up args c =
     (if \<not> missing args ''hostname''
      then verb up ''host.get''
             (JObj [(''output'', JStr ''extend''),
                    (''filter'', JObj [(''host'', the (field args ''hostname''))])]) c
      else verb up ''host.get''
             (search_by_name (field_or args ''hostname_pattern'' (JStr ''Proxmox''))) c)"

text \<open>The \<open>switch (name)\<close>.\<close>

definition tool_switch :: "upstream \<Rightarrow> bool \<Rightarrow> string \<Rightarrow> arguments \<Rightarrow> client \<Rightarrow> tool_result" where
  "tool_switch up ro name args c =
     (if name = ''host_get'' then verb up ''host.get'' (params_of args) c
      else if name = ''host_create''
        then guarded ro ''host_create'' (verb up ''host.create'' (params_of args)) c
      else if name = ''item_get'' then verb up ''item.get'' (params_of args) c
      else if name = ''item_create''
        then guarded ro ''item_create'' (verb up ''item.create'' (params_of args)) c
      else if name = ''dashboard_get'' then verb up ''dashboard.get'' (params_of args) c
      else if name = ''dashboard_create''
        then guarded ro ''dashboard_create'' (verb up ''dashboard.create'' (params_of args)) c
      else if name = ''proxmox_dashboard_create_single''
        then guarded ro ''proxmox_dashboard_create_single''
               (required args [''hostname''] ''hostname is required''
                  (prepared ''proxmox_dashboard_create_single'')) c
      else if name = ''api_connectivity_check'' then prepared ''api_connectivity_check'' c
      else if name = ''api_version_get'' then verb up ''apiinfo.version'' (JObj []) c
      else if name = ''hostgroup_get'' then verb up ''hostgroup.get'' (params_of args) c
      else if name = ''item_delete''
        then guarded ro ''item_delete''
               (required args [''itemids''] ''itemids is required''
                  (verb up ''item.delete'' (as_array (field args ''itemids'')))) c
      else if name = ''trigger_get'' then verb up ''trigger.get'' (params_of args) c
      else if name = ''problem_get'' then verb up ''problem.get'' (params_of args) c
      else if name = ''history_get'' then verb up ''history.get'' (params_of args) c
      else if name = ''dashboard_update''
        then guarded ro ''dashboard_update'' (verb up ''dashboard.update'' (params_of args)) c
      else if name = ''dashboard_delete''
        then guarded ro ''dashboard_delete''
               (required args [''dashboardids''] ''dashboardids is required''
                  (verb up ''dashboard.delete'' (as_array (field args ''dashboardids'')))) c
      else if name = ''proxmox_dashboard_create_dual''
        then guarded ro ''proxmox_dashboard_create_dual''
               (required args [''hostname1'', ''hostname2'']
                  ''hostname1 and hostname2 are required''
                  (prepared ''proxmox_dashboard_create_dual'')) c
      else if name = ''proxmox_dashboard_add_widgets''
        then guarded ro ''proxmox_dashboard_add_widgets''
               (required args [''dashboard_id'', ''hostname'']
                  ''dashboard_id and hostname are required''
                  (prepared ''proxmox_dashboard_add_widgets'')) c
      else if name = ''proxmox_hosts_analyze''
        then verb up ''host.get''
               (search_by_name (field_or args ''hostname_pattern'' (JStr ''Proxmox''))) c
      else if name = ''iops_item_create''
        then guarded ro ''iops_item_create''
               (required args [''hostname''] ''hostname is required''
                  (prepared ''iops_item_create'')) c
      else if name = ''disk_devices_discover'' then discoverDiskDevices up args c
      else if name = ''iops_dashboard_create''
        then guarded ro ''iops_dashboard_create''
               (required args [''name''] ''name is required''
                  (prepared ''iops_dashboard_create'')) c
      else if name = ''verify_connectivity'' then server_verifyConnectivity up c
      else (Inl (JsError (''Unknown tool: '' @ name) False), c))"

record tool_server =
  zabbixClient :: client
  readOnly :: bool

text \<open>
  The handler of \<open>CallToolRequestSchema\<close>: the login of a client that is not
  authenticated, the switch, and the catch block that wraps every error.
\<close>

definition api_error :: "js_error \<Rightarrow> js_error" where
  "api_error e = JsError (''Zabbix API error: '' @ message e) False"

definition call_tool ::
  "upstream \<Rightarrow> string \<Rightarrow> arguments \<Rightarrow> tool_server \<Rightarrow> (js_error + content) \<times> tool_server" where
  "call_tool up name args srv =
     (let (authenticated, c1) =
            (if \<not> isAuthenticated (zabbixClient srv) then login up (zabbixClient srv)
             else (Inr (), zabbixClient srv));
          (r, c2) = (case authenticated of
                       Inl e \<Rightarrow> (Inl e, c1)
                     | Inr u \<Rightarrow> tool_switch up (readOnly srv) name args c1)
      in (case r of Inl e \<Rightarrow> Inl (api_error e) | Inr x \<Rightarrow> Inr x,
          srv\<lparr>zabbixClient := c2\<rparr>))"

text \<open>The tools whose case begins with \<open>validateReadOnly\<close>.\<close>

definition guarded_tools :: "string list" where
  "guarded_tools =
     [''host_create'', ''item_create'', ''dashboard_create'',
      ''proxmox_dashboard_create_single'', ''item_delete'', ''dashboard_update'',
      ''dashboard_delete'', ''proxmox_dashboard_create_dual'',
      ''proxmox_dashboard_add_widgets'', ''iops_item_create'', ''iops_dashboard_create'']"

text \<open>
  From \<open>c\<close> to \<open>c'\<close> the client has only added posts, all of them for methods
  in \<open>M\<close>.
\<close>

definition grows :: "string set \<Rightarrow> client \<Rightarrow> client \<Rightarrow> bool" where
  "grows M c c' \<longleftrightarrow> (\<exists>ps. sent c' = sent c @ ps \<and> (\<forall>p \<in> set ps. p_method p \<in> M))"

subsection \<open>A client and three upstream servers\<close>

definition unauthorized :: api_response where
  "unauthorized = \<lparr>r_error = Some (- 32602, ''Not authorized''), r_result = JNull\<rparr>"

definition no_hosts :: api_response where
  "no_hosts = \<lparr>r_error = None, r_result = JArr []\<rparr>"

text \<open>An upstream that takes the token only in the payload.\<close>

definition legacy_only :: upstream where
  "legacy_only log =
     (case p_auth (last log) of
        None \<Rightarrow> Responds unauthorized
      | Some tok \<Rightarrow> Responds no_hosts)"

text \<open>An upstream that takes the token only in the header.\<close>

definition bearer_only :: upstream where
  "bearer_only log =
     (case p_authorization (last log) of
        None \<Rightarrow> Responds unauthorized
      | Some h \<Rightarrow> Responds no_hosts)"

definition rejects_all :: upstream where
  "rejects_all log = Responds unauthorized"

definition default_config :: zabbix_config where
  "default_config =
     \<lparr>cfg_token = None, cfg_user = Some ''Admin'', cfg_password = Some ''zabbix''\<rparr>"

definition logged_in :: client where
  "logged_in = \<lparr>config = default_config, authToken = Some ''tk'', requestId = 5, sent = []\<rparr>"

text \<open>A client that has not logged in, and an upstream that cannot be reached.\<close>

definition fresh_client :: client where
  "fresh_client = \<lparr>config = default_config, authToken = None, requestId = 1, sent = []\<rparr>"

definition unreachable :: upstream where
  "unreachable log = Rejects (JsError ''connect ECONNREFUSED'' True)"

definition cannot_connect :: js_error where
  "cannot_connect =
     JsError ''Cannot connect to Zabbix API. Please verify the URL and network connectivity.''
       False"

definition widget_arguments :: arguments where
  "widget_arguments = Some [(''dashboard_id'', JStr ''1''), (''hostname'', JStr ''pve'')]"

section \<open>Properties of the session table\<close>

lemma entries_cleanup:
  "entries (cleanupSession close sid st) = AList.delete sid (entries st)"
  by (auto simp: cleanupSession_def DAList.delete.rep_eq DAList.lookup.rep_eq Let_def
        map_of_eq_None_iff split: option.splits)

lemma lookup_cleanup_other:
  "k \<noteq> sid \<Longrightarrow> DAList.lookup (sessions (cleanupSession close sid st)) k = DAList.lookup (sessions st) k"
  by (simp add: DAList.lookup.rep_eq entries_cleanup)

lemma lookup_entries:
  "DAList.lookup (sessions st) k = Some s \<longleftrightarrow> (k, s) \<in> set (entries st)"
  by (simp add: DAList.lookup.rep_eq)

lemma sweep_loop_entries:
  "distinct (map fst xs) \<Longrightarrow>
   (\<forall>(k, s) \<in> set xs. DAList.lookup (sessions st) k = Some s) \<Longrightarrow>
   entries (sweep_loop close now xs st) =
     filter (\<lambda>(k, s). (k, s) \<notin> set xs \<or> \<not> now - lastActivity s > sessionTimeout) (entries st)"
proof (induction xs arbitrary: st)
  case Nil
  then show ?case by simp
next
  case (Cons x xs)
  obtain sid s where x: "x = (sid, s)" by (cases x)
  have dist: "distinct (map fst xs)" and notin: "sid \<notin> fst ` set xs"
    using Cons.prems(1) x by auto
  have here: "(sid, s) \<in> set (entries st)"
    using Cons.prems(2) x by (simp add: lookup_entries)
  have uniq: "\<And>s'. (sid, s') \<in> set (entries st) \<Longrightarrow> s' = s"
    using here by (metis DAList.impl_of_distinct map_of_eq_Some_iff option.inject)
  show ?case
  proof (cases "now - lastActivity s > sessionTimeout")
    case True
    let ?st = "cleanupSession close sid st"
    have pre: "\<forall>(k, s) \<in> set xs. DAList.lookup (sessions ?st) k = Some s"
    proof (clarify)
      fix k s' assume ks: "(k, s') \<in> set xs"
      then have "k \<noteq> sid" using notin by force
      moreover have "DAList.lookup (sessions st) k = Some s'" using Cons.prems(2) ks by auto
      ultimately show "DAList.lookup (sessions ?st) k = Some s'"
        by (simp add: lookup_cleanup_other)
    qed
    have "entries (sweep_loop close now (x # xs) st) = entries (sweep_loop close now xs ?st)"
      using True x by simp
    also have "\<dots> = filter (\<lambda>(k, s). (k, s) \<notin> set xs \<or> \<not> now - lastActivity s > sessionTimeout)
                       (entries ?st)"
      by (rule Cons.IH [OF dist pre])
    also have "\<dots> = filter (\<lambda>(k, s'). (k, s') \<notin> set (x # xs) \<or> \<not> now - lastActivity s' > sessionTimeout)
                       (entries st)"
      unfolding entries_cleanup AList.delete_eq filter_filter
      by (rule filter_cong) (use True x uniq in auto)
    finally show ?thesis .
  next
    case False
    have pre: "\<forall>(k, s) \<in> set xs. DAList.lookup (sessions st) k = Some s"
      using Cons.prems(2) by simp
    have "entries (sweep_loop close now (x # xs) st) = entries (sweep_loop close now xs st)"
      using False x by simp
    also have "\<dots> = filter (\<lambda>(k, s). (k, s) \<notin> set xs \<or> \<not> now - lastActivity s > sessionTimeout)
                       (entries st)"
      by (rule Cons.IH [OF dist pre])
    also have "\<dots> = filter (\<lambda>(k, s'). (k, s') \<notin> set (x # xs) \<or> \<not> now - lastActivity s' > sessionTimeout)
                       (entries st)"
      by (rule filter_cong) (use False x uniq in auto)
    finally show ?thesis .
  qed
qed

lemma sweep_entries:
  "entries (sweep close now st) =
     filter (\<lambda>(k, s). \<not> now - lastActivity s > sessionTimeout) (entries st)"
proof -
  have "entries (sweep close now st) =
     filter (\<lambda>(k, s). (k, s) \<notin> set (entries st) \<or> \<not> now - lastActivity s > sessionTimeout) (entries st)"
    unfolding sweep_def by (rule sweep_loop_entries) (auto simp: lookup_entries)
  also have "\<dots> = filter (\<lambda>(k, s). \<not> now - lastActivity s > sessionTimeout) (entries st)"
    by (rule filter_cong) auto
  finally show ?thesis .
qed

lemma find_session_SomeD:
  "find_session rid xs = Some (k, s) \<Longrightarrow>
   (k, s) \<in> set xs \<and> (sessionId (transport s) = rid \<or> k = rid)"
  by (induction rid xs rule: find_session.induct) (auto split: if_splits)

lemma find_session_None_iff:
  "find_session rid xs = None \<longleftrightarrow>
   (\<forall>(k, s) \<in> set xs. sessionId (transport s) \<noteq> rid \<and> k \<noteq> rid)"
  by (induction rid xs rule: find_session.induct) auto

lemma lookup_cleanup_same:
  "DAList.lookup (sessions (cleanupSession close sid st)) sid = None"
  by (simp add: DAList.lookup.rep_eq entries_cleanup delete_conv')

lemma cleanup_absent:
  "DAList.lookup (sessions st) sid = None \<Longrightarrow> cleanupSession close sid st = st"
  by (simp add: cleanupSession_def)

lemma resolve_session_InrD:
  "resolve_session req st = Inr (k, s) \<Longrightarrow>
   (\<exists>rid. requestedSessionId req = Some rid \<and> rid \<noteq> [] \<and> k \<noteq> [] \<and>
          find_session rid (entries st) = Some (k, s))"
  by (auto simp: resolve_session_def split: option.splits if_splits prod.splits)

lemma resolve_session_entry:
  "resolve_session req st = Inr (k, s) \<Longrightarrow> DAList.lookup (sessions st) k = Some s"
  by (auto dest!: resolve_session_InrD find_session_SomeD simp: lookup_entries)

lemma post_message_unresolved:
  "resolve_session req st = Inl res \<Longrightarrow> post_message req st = (st, res)"
  by (simp add: post_message_def)

lemma post_message_sessions:
  "resolve_session req st = Inr (k, s) \<Longrightarrow>
   sessions (fst (post_message req st)) =
     DAList.update k (s\<lparr>lastActivity := post_now req\<rparr>) (sessions st)"
  by (simp add: post_message_def Let_def split: option.splits)

lemma sse_open_sessions:
  "sessions (fst (sse_open req st)) = sessions st \<or>
   (\<exists>srv tr. sessions (fst (sse_open req st)) =
      DAList.update (randomUUID req)
        \<lparr>server = srv, transport = tr, lastActivity = sse_now req\<rparr> (sessions st))"
  by (auto simp: sse_open_def sse_register_def sse_connect_def sse_catch_def Let_def
      split: sum.splits option.splits)

lemma lookup_sweep:
  "DAList.lookup (sessions (sweep close now st)) k =
     (case DAList.lookup (sessions st) k of
        None \<Rightarrow> None
      | Some s \<Rightarrow> if now - lastActivity s > sessionTimeout then None else Some s)"
proof -
  have d: "distinct (map fst (entries st))" by simp
  have "map_of (filter (\<lambda>(k, s). \<not> now - lastActivity s > sessionTimeout) xs) k =
     (case map_of xs k of
        None \<Rightarrow> None
      | Some s \<Rightarrow> if now - lastActivity s > sessionTimeout then None else Some s)"
    if "distinct (map fst xs)" for xs :: "(string \<times> session) list"
    using that by (induction xs) (auto split: option.splits simp: map_of_eq_None_iff image_iff)
  from this [OF d] show ?thesis
    by (simp add: DAList.lookup.rep_eq sweep_entries)
qed

lemma sweep_loop_fold:
  "sweep_loop close now xs st =
     fold (cleanupSession close)
       (map fst (filter (\<lambda>(k, s). now - lastActivity s > sessionTimeout) xs)) st"
  by (induction close now xs st rule: sweep_loop.induct) auto

lemma lookup_shutdown_loop:
  "DAList.lookup (sessions (shutdown_loop close xs st)) k = Some s' \<Longrightarrow>
   DAList.lookup (sessions st) k = Some s'"
proof (induction xs arbitrary: st)
  case Nil
  then show ?case by simp
next
  case (Cons x xs)
  obtain sid s where x: "x = (sid, s)" by (cases x)
  from Cons.prems x
  have "DAList.lookup (sessions (cleanupSession close sid st)) k = Some s'"
    by (auto dest: Cons.IH)
  then show ?case
    using lookup_cleanup_same [of close sid st]
    by (cases "k = sid") (simp_all add: lookup_cleanup_other)
qed

lemma activity_boundedD:
  "activity_bounded c st \<Longrightarrow> DAList.lookup (sessions st) k = Some s \<Longrightarrow> lastActivity s \<le> c"
  by (auto simp: activity_bounded_def list_all_iff lookup_entries)

lemma activity_boundedI:
  "(\<And>k s. DAList.lookup (sessions st) k = Some s \<Longrightarrow> lastActivity s \<le> c) \<Longrightarrow>
   activity_bounded c st"
  by (auto simp: activity_bounded_def list_all_iff lookup_entries)

lemma step_lookup:
  assumes "DAList.lookup (sessions (step close ev st)) k = Some s'"
  shows "DAList.lookup (sessions st) k = Some s' \<or>
         (\<exists>t. event_time ev = Some t \<and> lastActivity s' = t)"
proof (cases ev)
  case (Open req)
  from sse_open_sessions [of req st] show ?thesis
  proof
    assume "sessions (fst (sse_open req st)) = sessions st"
    then show ?thesis using assms Open by simp
  next
    assume "\<exists>srv tr. sessions (fst (sse_open req st)) =
      DAList.update (randomUUID req)
        \<lparr>server = srv, transport = tr, lastActivity = sse_now req\<rparr> (sessions st)"
    then show ?thesis using assms Open
      by (cases "k = randomUUID req") auto
  qed
next
  case (Message req)
  show ?thesis
  proof (cases "resolve_session req st")
    case (Inl res)
    then show ?thesis using assms Message by (simp add: post_message_unresolved)
  next
    case (Inr r)
    obtain a s where r: "r = (a, s)" by (cases r)
    show ?thesis using assms Message post_message_sessions [of req st a s] Inr r
      by (cases "k = a") auto
  qed
next
  case (Delete sid)
  then show ?thesis using assms lookup_cleanup_same [of close sid st]
    by (cases "k = sid") (auto simp: delete_session_def lookup_cleanup_other split: if_splits)
next
  case (Disconnect sid)
  then show ?thesis using assms lookup_cleanup_same [of close sid st]
    by (cases "k = sid") (auto simp: lookup_cleanup_other split: if_splits)
next
  case (Sweep now)
  then show ?thesis using assms
    by (auto simp: lookup_sweep split: option.splits if_splits)
next
  case Shutdown
  then show ?thesis using assms
    by (auto simp: shutdown_def dest: lookup_shutdown_loop)
qed

lemma step_monotone:
  assumes "activity_bounded c st"
      and "\<And>t. event_time ev = Some t \<Longrightarrow> c \<le> t"
      and "DAList.lookup (sessions st) k = Some s"
      and "DAList.lookup (sessions (step close ev st)) k = Some s'"
  shows "lastActivity s \<le> lastActivity s'"
  using step_lookup [OF assms(4)] assms(2,3) activity_boundedD [OF assms(1,3)] by auto

lemma step_bounded:
  assumes "activity_bounded c st"
      and "\<And>t. event_time ev = Some t \<Longrightarrow> c \<le> t"
  shows "activity_bounded (case event_time ev of None \<Rightarrow> c | Some t \<Rightarrow> t) (step close ev st)"
proof (rule activity_boundedI)
  fix k s' assume "DAList.lookup (sessions (step close ev st)) k = Some s'"
  from step_lookup [OF this] assms activity_boundedD [OF assms(1)]
  show "lastActivity s' \<le> (case event_time ev of None \<Rightarrow> c | Some t \<Rightarrow> t)"
    by (fastforce split: option.splits)
qed

lemma run_monotone:
  "activity_bounded c st \<Longrightarrow> clock_ok c evs \<Longrightarrow> live_through close k evs st \<Longrightarrow>
   DAList.lookup (sessions st) k = Some s \<Longrightarrow>
   \<exists>s'. DAList.lookup (sessions (run close evs st)) k = Some s' \<and>
        lastActivity s \<le> lastActivity s'"
proof (induction evs arbitrary: c st s)
  case Nil
  then show ?case by simp
next
  case (Cons ev evs)
  let ?c = "case event_time ev of None \<Rightarrow> c | Some t \<Rightarrow> t"
  have time: "\<And>t. event_time ev = Some t \<Longrightarrow> c \<le> t"
    using Cons.prems(2) by simp
  have b: "activity_bounded ?c (step close ev st)"
    by (rule step_bounded [OF Cons.prems(1) time])
  have ok: "clock_ok ?c evs"
    using Cons.prems(2) by (simp split: option.splits)
  have live: "live_through close k evs (step close ev st)"
    using Cons.prems(3) by simp
  then obtain s1 where s1: "DAList.lookup (sessions (step close ev st)) k = Some s1"
    by (cases evs) auto
  have le1: "lastActivity s \<le> lastActivity s1"
    by (rule step_monotone [OF Cons.prems(1) time Cons.prems(4) s1])
  from Cons.IH [OF b ok live s1] le1 show ?case by auto
qed

lemma entries_two_sessions: "entries two_sessions = [(''a'', session_a), (''b'', session_b)]"
  by (simp add: two_sessions_def DAList.update.rep_eq DAList.empty.rep_eq)

lemma lookup_two_sessions_a: "DAList.lookup (sessions two_sessions) ''a'' = Some session_a"
  by (simp add: two_sessions_def)

lemma lookup_two_sessions_b: "DAList.lookup (sessions two_sessions) ''b'' = Some session_b"
  by (simp add: two_sessions_def)

text \<open>
  Claim C2. A \<open>POST /message\<close> whose supplied session id matches no entry of the
  session table, neither by key nor by the transport's own id, is answered with status 404
  and the body \<open>{error: "Session <id> not found"}\<close>, and the state of the server,
  the session table included, is the one before the call.
\<close>

theorem post_unknown_session_not_found:
  assumes "requestedSessionId req = Some rid" and "rid \<noteq> []"
      and "\<forall>(k, s) \<in> set (entries st). k \<noteq> rid \<and> sessionId (transport s) \<noteq> rid"
  shows "post_message req st =
           (st, status_json 404
                  (JObj [(''error'', JStr (''Session '' @ rid @ '' not found''))])
                  fresh_response)"
proof -
  have "find_session rid (entries st) = None"
    using assms(3) by (auto simp: find_session_None_iff)
  then have "resolve_session req st = Inl (not_found rid)"
    using assms(1,2) by (simp add: resolve_session_def)
  then show ?thesis
    by (simp add: post_message_unresolved not_found_def)
qed

text \<open>The id \<open>zz\<close> against the table holding \<open>a\<close> and \<open>b\<close>.\<close>

theorem post_unknown_session_not_found_witness:
  "post_message
     \<lparr>query_sessionId = Some ''zz'', header_sessionId = None, post_now = 7,
      handlePostMessage = accepted\<rparr> two_sessions =
   (two_sessions,
    status_json 404 (JObj [(''error'', JStr ''Session zz not found'')]) fresh_response)"
proof -
  let ?req = "\<lparr>query_sessionId = Some ''zz'', header_sessionId = None, post_now = 7,
      handlePostMessage = accepted\<rparr>"
  have 1: "requestedSessionId ?req = Some ''zz''"
    by (simp add: requestedSessionId_def js_or_def truthy_str_def)
  have 2: "''zz'' \<noteq> []" by simp
  have 3: "\<forall>(k, s) \<in> set (entries two_sessions). k \<noteq> ''zz'' \<and> sessionId (transport s) \<noteq> ''zz''"
    by (simp add: entries_two_sessions session_a_def session_b_def)
  from post_unknown_session_not_found [OF 1 2 3] show ?thesis by simp
qed

text \<open>
  Claim C4. A sweep at time \<open>now\<close> removes every session with
  \<open>now - lastActivity > 30 * 60 * 1000\<close> and keeps every other session as it is. It
  does so by calling \<open>cleanupSession\<close>, the teardown of the explicit close, on the
  expired ids in table order. The timer period is \<open>5 * 60 * 1000\<close> milliseconds.
\<close>

theorem reaper_sweep_evicts_idle:
  assumes "DAList.lookup (sessions st) k = Some s"
  shows "(now - lastActivity s > 30 * 60 * 1000 \<longrightarrow>
            DAList.lookup (sessions (sweep close now st)) k = None) \<and>
         (\<not> now - lastActivity s > 30 * 60 * 1000 \<longrightarrow>
            DAList.lookup (sessions (sweep close now st)) k = Some s) \<and>
         sweep close now st =
           fold (cleanupSession close)
             (map fst (filter (\<lambda>(k, s). now - lastActivity s > 30 * 60 * 1000) (entries st))) st \<and>
         cleanupInterval = 5 * 60 * 1000"
proof -
  have t: "sessionTimeout = 30 * 60 * 1000"
    by (simp add: sessionTimeout_def)
  have 1: "DAList.lookup (sessions (sweep close now st)) k =
             (if now - lastActivity s > sessionTimeout then None else Some s)"
    using assms by (simp add: lookup_sweep)
  have 2: "sweep close now st =
             fold (cleanupSession close)
               (map fst (filter (\<lambda>(k, s). now - lastActivity s > sessionTimeout) (entries st))) st"
    unfolding sweep_def by (rule sweep_loop_fold)
  have 3: "cleanupInterval = 5 * 60 * 1000"
    by (simp add: cleanupInterval_def)
  from 1 2 3 show ?thesis unfolding t by simp
qed

text \<open>At time 2000000 session \<open>a\<close> (last active at 0) goes, \<open>b\<close> (1500000) stays.\<close>

theorem reaper_sweep_evicts_idle_witness:
  "DAList.lookup (sessions (sweep no_throw 2000000 two_sessions)) ''a'' = None \<and>
   DAList.lookup (sessions (sweep no_throw 2000000 two_sessions)) ''b'' = Some session_b \<and>
   sweep no_throw 2000000 two_sessions = cleanupSession no_throw ''a'' two_sessions"
proof -
  have a: "2000000 - lastActivity session_a > 30 * 60 * 1000"
    by (simp add: session_a_def)
  have b: "\<not> 2000000 - lastActivity session_b > 30 * 60 * 1000"
    by (simp add: session_b_def)
  have f: "map fst (filter (\<lambda>(k, s). 2000000 - lastActivity s > 30 * 60 * 1000)
             (entries two_sessions)) = [''a'']"
    by (simp add: entries_two_sessions session_a_def session_b_def)
  from reaper_sweep_evicts_idle [OF lookup_two_sessions_a, of 2000000 no_throw]
       reaper_sweep_evicts_idle [OF lookup_two_sessions_b, of 2000000 no_throw] a b
  have "DAList.lookup (sessions (sweep no_throw 2000000 two_sessions)) ''a'' = None"
   and "DAList.lookup (sessions (sweep no_throw 2000000 two_sessions)) ''b'' = Some session_b"
   and "sweep no_throw 2000000 two_sessions =
          fold (cleanupSession no_throw)
            (map fst (filter (\<lambda>(k, s). 2000000 - lastActivity s > 30 * 60 * 1000)
               (entries two_sessions))) two_sessions"
    by blast+
  then show ?thesis unfolding f by simp
qed

text \<open>
  Claim C5. \<open>cleanupSession\<close> on an id without an entry returns the state unchanged;
  after \<open>cleanupSession\<close>, first or repeated, the table has no entry for the id, and a
  second call changes nothing. The same holds through \<open>DELETE /session/:id\<close> (which
  answers 404 for an absent id and leaves the state alone), through the disconnect listeners
  and through the sweep. The result is a state for every behaviour of \<open>server.close()\<close>,
  a throwing one included: the catch block takes the error and \<open>finally\<close> deletes.
\<close>

theorem cleanupSession_idempotent:
  "(DAList.lookup (sessions st) sid = None \<longrightarrow> cleanupSession close sid st = st) \<and>
   DAList.lookup (sessions (cleanupSession close sid st)) sid = None \<and>
   cleanupSession close sid (cleanupSession close sid st) = cleanupSession close sid st \<and>
   DAList.lookup (sessions (fst (delete_session close sid st))) sid = None \<and>
   (DAList.lookup (sessions st) sid = None \<longrightarrow>
      delete_session close sid st =
        (st, status_json 404 (JObj [(''error'', JStr (''Session '' @ sid @ '' not found''))])
               fresh_response)) \<and>
   DAList.lookup (sessions (step close (Disconnect sid) (step close (Disconnect sid) st))) sid =
     DAList.lookup (sessions (step close (Disconnect sid) st)) sid \<and>
   DAList.lookup (sessions (sweep close now (sweep close now st))) sid =
     DAList.lookup (sessions (sweep close now st)) sid"
  by (auto simp: cleanup_absent lookup_cleanup_same delete_session_def lookup_sweep
      split: option.splits)

text \<open>Closing \<open>a\<close> twice, directly and through the DELETE route.\<close>

theorem cleanupSession_idempotent_witness:
  "DAList.lookup (sessions (cleanupSession no_throw ''a'' two_sessions)) ''a'' = None \<and>
   cleanupSession no_throw ''a'' (cleanupSession no_throw ''a'' two_sessions) =
     cleanupSession no_throw ''a'' two_sessions \<and>
   delete_session no_throw ''a'' (fst (delete_session no_throw ''a'' two_sessions)) =
     (fst (delete_session no_throw ''a'' two_sessions),
      status_json 404 (JObj [(''error'', JStr ''Session a not found'')]) fresh_response)"
proof -
  let ?st = "fst (delete_session no_throw ''a'' two_sessions)"
  have gone: "DAList.lookup (sessions ?st) ''a'' = None"
    using cleanupSession_idempotent [of two_sessions "''a''" no_throw] by simp
  show ?thesis
    using cleanupSession_idempotent [of two_sessions "''a''" no_throw]
          cleanupSession_idempotent [of ?st "''a''" no_throw] gone
    by simp
qed

lemma requestedSessionId_cases:
  "(truthy_str (query_sessionId req) \<longrightarrow> requestedSessionId req = query_sessionId req) \<and>
   (\<not> truthy_str (query_sessionId req) \<longrightarrow> requestedSessionId req = header_sessionId req)"
  by (simp add: requestedSessionId_def js_or_def)

text \<open>
  Claim C8. The requested id is the \<open>sessionId\<close> query parameter when that is
  non-empty, and the \<open>X-Session-ID\<close> header otherwise. A non-empty requested id
  resolves to a session exactly when some entry of the table has that id as its key or as
  its transport's \<open>sessionId\<close>, and the session it resolves to is such an entry. No
  entry is registered under the empty key (keys are values of \<open>randomUUID()\<close>).
\<close>

theorem post_resolves_by_key_or_transport_id:
  assumes "[] \<notin> fst ` set (entries st)"
  shows "(truthy_str (query_sessionId req) \<longrightarrow> requestedSessionId req = query_sessionId req) \<and>
         (\<not> truthy_str (query_sessionId req) \<longrightarrow>
            requestedSessionId req = header_sessionId req) \<and>
         (requestedSessionId req = Some rid \<and> rid \<noteq> [] \<longrightarrow>
            ((\<exists>r. resolve_session req st = Inr r) \<longleftrightarrow>
             (\<exists>(k, s) \<in> set (entries st). k = rid \<or> sessionId (transport s) = rid)) \<and>
            (\<forall>k s. resolve_session req st = Inr (k, s) \<longrightarrow>
               (k, s) \<in> set (entries st) \<and> (k = rid \<or> sessionId (transport s) = rid)))"
proof -
  have iff: "(\<exists>r. resolve_session req st = Inr r) \<longleftrightarrow>
             (\<exists>(k, s) \<in> set (entries st). k = rid \<or> sessionId (transport s) = rid)"
    if rid: "requestedSessionId req = Some rid" "rid \<noteq> []"
  proof (cases "find_session rid (entries st)")
    case None
    then have "resolve_session req st = Inl (not_found rid)"
      using rid by (simp add: resolve_session_def)
    moreover have "\<not> (\<exists>(k, s) \<in> set (entries st). k = rid \<or> sessionId (transport s) = rid)"
      using None by (auto simp: find_session_None_iff)
    ultimately show ?thesis by simp
  next
    case (Some r)
    obtain k s where r: "r = (k, s)" by (cases r)
    from find_session_SomeD [of rid "entries st" k s] Some r
    have mem: "(k, s) \<in> set (entries st)" and m: "sessionId (transport s) = rid \<or> k = rid"
      by auto
    from mem assms have "k \<noteq> []" by force
    then have "resolve_session req st = Inr (k, s)"
      using rid Some r by (simp add: resolve_session_def)
    moreover have "\<exists>(k, s) \<in> set (entries st). k = rid \<or> sessionId (transport s) = rid"
      using mem m by auto
    ultimately show ?thesis by simp
  qed
  have which: "(k, s) \<in> set (entries st) \<and> (k = rid \<or> sessionId (transport s) = rid)"
    if "requestedSessionId req = Some rid" "resolve_session req st = Inr (k, s)" for k s
    using resolve_session_InrD [OF that(2)] that(1) find_session_SomeD [of rid "entries st" k s]
    by auto
  from iff which requestedSessionId_cases [of req] show ?thesis by blast
qed

text \<open>
  Session \<open>b\<close> is found through its transport id \<open>tb\<close> given in the query,
  session \<open>a\<close> through its key given in the header.
\<close>

theorem post_resolves_by_key_or_transport_id_witness:
  "(\<exists>r. resolve_session
          \<lparr>query_sessionId = Some ''tb'', header_sessionId = None, post_now = 7,
           handlePostMessage = accepted\<rparr> two_sessions = Inr r) \<and>
   (\<exists>r. resolve_session
          \<lparr>query_sessionId = None, header_sessionId = Some ''a'', post_now = 7,
           handlePostMessage = accepted\<rparr> two_sessions = Inr r)"
proof -
  let ?q = "\<lparr>query_sessionId = Some ''tb'', header_sessionId = None, post_now = 7,
           handlePostMessage = accepted\<rparr>"
  let ?h = "\<lparr>query_sessionId = None, header_sessionId = Some ''a'', post_now = 7,
           handlePostMessage = accepted\<rparr>"
  have keys: "[] \<notin> fst ` set (entries two_sessions)"
    by (simp add: entries_two_sessions)
  have q: "requestedSessionId ?q = Some ''tb'' \<and> ''tb'' \<noteq> []"
    by (simp add: requestedSessionId_def js_or_def truthy_str_def)
  have h: "requestedSessionId ?h = Some ''a'' \<and> ''a'' \<noteq> []"
    by (simp add: requestedSessionId_def js_or_def truthy_str_def)
  have mq: "\<exists>(k, s) \<in> set (entries two_sessions). k = ''tb'' \<or> sessionId (transport s) = ''tb''"
    by (simp add: entries_two_sessions session_a_def session_b_def)
  have mh: "\<exists>(k, s) \<in> set (entries two_sessions). k = ''a'' \<or> sessionId (transport s) = ''a''"
    by (simp add: entries_two_sessions session_a_def session_b_def)
  from post_resolves_by_key_or_transport_id [OF keys, of ?q "''tb''"] q mq
       post_resolves_by_key_or_transport_id [OF keys, of ?h "''a''"] h mh
  show ?thesis by blast
qed

text \<open>
  Claim C6, as amended. A \<open>POST /message\<close> that resolves to a session stores the
  current reading of \<open>Date.now()\<close> as that session's \<open>lastActivity\<close>. Provided
  that the readings of \<open>Date.now()\<close> never go back (each reading is at least the one
  before, and no stored \<open>lastActivity\<close> lies after the first), along every run of
  the server an id that stays in the table has a \<open>lastActivity\<close> at the end that is
  not below the one at the start.
\<close>

theorem lastActivity_refresh_monotone:
  assumes "activity_bounded c st" and "clock_ok c evs" and "live_through close k evs st"
  shows "(\<exists>s s'. DAList.lookup (sessions st) k = Some s \<and>
                 DAList.lookup (sessions (run close evs st)) k = Some s' \<and>
                 lastActivity s \<le> lastActivity s') \<and>
         (\<forall>req a s. resolve_session req st = Inr (a, s) \<longrightarrow>
            DAList.lookup (sessions st) a = Some s \<and>
            DAList.lookup (sessions (step close (Message req) st)) a =
              Some (s\<lparr>lastActivity := post_now req\<rparr>))"
proof -
  from assms(3) obtain s where s: "DAList.lookup (sessions st) k = Some s"
    by (cases evs) auto
  from run_monotone [OF assms s] s
  have 1: "\<exists>s s'. DAList.lookup (sessions st) k = Some s \<and>
                 DAList.lookup (sessions (run close evs st)) k = Some s' \<and>
                 lastActivity s \<le> lastActivity s'"
    by blast
  have 2: "DAList.lookup (sessions st) a = Some s \<and>
           DAList.lookup (sessions (step close (Message req) st)) a =
              Some (s\<lparr>lastActivity := post_now req\<rparr>)"
    if "resolve_session req st = Inr (a, s)" for req a s
    using that by (simp add: post_message_sessions resolve_session_entry)
  from 1 2 show ?thesis by blast
qed

lemma resolve_two_sessions_a:
  "resolve_session \<lparr>query_sessionId = Some ''a'', header_sessionId = None, post_now = t,
      handlePostMessage = eff\<rparr> two_sessions = Inr (''a'', session_a)"
  by (simp add: resolve_session_def requestedSessionId_def js_or_def truthy_str_def
      entries_two_sessions)

lemma post_message_keeps:
  assumes "DAList.lookup (sessions st) k = Some s"
  shows "DAList.lookup (sessions (fst (post_message req st))) k \<noteq> None"
proof (cases "resolve_session req st")
  case (Inl res)
  then show ?thesis using assms by (simp add: post_message_unresolved)
next
  case (Inr r)
  obtain a s' where r: "r = (a, s')" by (cases r)
  show ?thesis
    using post_message_sessions [of req st a s'] Inr r assms
    by (cases "k = a") simp_all
qed

text \<open>
  Session \<open>a\<close> through a dispatch at 1600000, a sweep at 1700000 and a dispatch to
  \<open>b\<close> at 1800000.
\<close>

theorem lastActivity_refresh_monotone_witness:
  "activity_bounded 1500000 two_sessions \<and> clock_ok 1500000 refresh_run \<and>
   live_through no_throw ''a'' refresh_run two_sessions \<and>
   (\<exists>s s'. DAList.lookup (sessions two_sessions) ''a'' = Some s \<and>
           DAList.lookup (sessions (run no_throw refresh_run two_sessions)) ''a'' = Some s' \<and>
           lastActivity s \<le> lastActivity s') \<and>
   DAList.lookup (sessions (step no_throw (hd refresh_run) two_sessions)) ''a'' =
     Some (session_a\<lparr>lastActivity := 1600000\<rparr>)"
proof -
  let ?m1 = "\<lparr>query_sessionId = Some ''a'', header_sessionId = None, post_now = 1600000,
               handlePostMessage = accepted\<rparr>"
  let ?m2 = "\<lparr>query_sessionId = None, header_sessionId = Some ''tb'', post_now = 1800000,
               handlePostMessage = accepted\<rparr>"
  let ?st1 = "step no_throw (Message ?m1) two_sessions"
  let ?st2 = "step no_throw (Sweep 1700000) ?st1"
  let ?st3 = "step no_throw (Message ?m2) ?st2"
  have b: "activity_bounded 1500000 two_sessions"
    by (simp add: activity_bounded_def entries_two_sessions session_a_def session_b_def)
  have c: "clock_ok 1500000 refresh_run"
    by (simp add: refresh_run_def)
  have s1: "sessions ?st1 =
      DAList.update ''a'' (session_a\<lparr>lastActivity := 1600000\<rparr>) (sessions two_sessions)"
    using post_message_sessions [OF resolve_two_sessions_a] by simp
  have l1: "DAList.lookup (sessions ?st1) ''a'' = Some (session_a\<lparr>lastActivity := 1600000\<rparr>)"
    by (simp only: s1 DAList.lookup_update_eq)
  have l2: "DAList.lookup (sessions ?st2) ''a'' = Some (session_a\<lparr>lastActivity := 1600000\<rparr>)"
    using l1 by (simp add: lookup_sweep sessionTimeout_def del: step.simps(2))
  have l3: "DAList.lookup (sessions ?st3) ''a'' \<noteq> None"
    using post_message_keeps [OF l2, of ?m2] by simp
  have l0: "DAList.lookup (sessions two_sessions) ''a'' \<noteq> None"
    by (simp add: lookup_two_sessions_a)
  have live: "live_through no_throw ''a'' refresh_run two_sessions"
    unfolding refresh_run_def live_through.simps using l0 l1 l2 l3 by simp
  from lastActivity_refresh_monotone [OF b c live]
  have "\<exists>s s'. DAList.lookup (sessions two_sessions) ''a'' = Some s \<and>
           DAList.lookup (sessions (run no_throw refresh_run two_sessions)) ''a'' = Some s' \<and>
           lastActivity s \<le> lastActivity s'"
   and "DAList.lookup (sessions (step no_throw (Message ?m1) two_sessions)) ''a'' =
           Some (session_a\<lparr>lastActivity := post_now ?m1\<rparr>)"
    using resolve_two_sessions_a by blast+
  then show ?thesis using b c live by (simp add: refresh_run_def)
qed

lemma resolve_two_sessions_b:
  "resolve_session \<lparr>query_sessionId = Some ''b'', header_sessionId = None, post_now = t,
      handlePostMessage = eff\<rparr> two_sessions = Inr (''b'', session_b)"
  by (simp add: resolve_session_def requestedSessionId_def js_or_def truthy_str_def
      entries_two_sessions session_a_def)

text \<open>
  Claim C6 as stated fails. \<open>lastActivity\<close> is assigned the reading of
  \<open>Date.now()\<close> with no comparison against the stored value. Session \<open>b\<close>, last
  active at 1500000, stays in the table through a dispatch for which \<open>Date.now()\<close>
  reads 5, and its \<open>lastActivity\<close> drops to 5.
\<close>

theorem lastActivity_follows_clock_back:
  "live_through no_throw ''b'' clock_back_run two_sessions \<and>
   DAList.lookup (sessions two_sessions) ''b'' = Some session_b \<and>
   lastActivity session_b = 1500000 \<and>
   DAList.lookup (sessions (run no_throw clock_back_run two_sessions)) ''b'' =
     Some (session_b\<lparr>lastActivity := 5\<rparr>) \<and>
   \<not> lastActivity session_b \<le> lastActivity (session_b\<lparr>lastActivity := 5\<rparr>)"
proof -
  let ?m = "\<lparr>query_sessionId = Some ''b'', header_sessionId = None, post_now = 5,
             handlePostMessage = accepted\<rparr>"
  have s1: "sessions (fst (post_message ?m two_sessions)) =
              DAList.update ''b'' (session_b\<lparr>lastActivity := 5\<rparr>) (sessions two_sessions)"
    using post_message_sessions [OF resolve_two_sessions_b, of 5 accepted] by simp
  have l1: "DAList.lookup (sessions (fst (post_message ?m two_sessions))) ''b'' =
              Some (session_b\<lparr>lastActivity := 5\<rparr>)"
    by (simp only: s1 DAList.lookup_update_eq)
  have l0: "DAList.lookup (sessions two_sessions) ''b'' = Some session_b"
    by (rule lookup_two_sessions_b)
  have t: "lastActivity session_b = 1500000"
    by (simp add: session_b_def)
  from l0 l1 t show ?thesis
    by (simp add: clock_back_run_def)
qed

section \<open>Properties of the stream-open handler\<close>

lemma sse_register_ok:
  assumes "newServer req = Inr srv" and "setupZabbixTools req = None"
      and "newTransport req = Inr tr"
  shows "sse_register req st =
           Inr (st\<lparr>sessions := DAList.update (randomUUID req)
                      \<lparr>server = srv, transport = tr, lastActivity = sse_now req\<rparr> (sessions st)\<rparr>,
                sse_headers fresh_response)"
  using assms by (simp add: sse_register_def)

lemma sse_headers_unsent:
  "\<not> headersSent (sse_headers fresh_response) \<and> chunks (sse_headers fresh_response) = []"
  by (simp add: sse_headers_def setHeader_def fresh_response_def)

lemma chunks_apply_effect: "chunks (apply_effect eff res) = chunks res @ e_frames eff"
  by (simp add: apply_effect_def Let_def split: option.splits)

lemma headersSent_apply_effect:
  "headersSent (apply_effect eff res) \<longleftrightarrow>
     headersSent res \<or> e_status eff \<noteq> None \<or> e_frames eff \<noteq> []"
  by (auto simp: apply_effect_def Let_def split: option.splits)

text \<open>
  Claim C1, as amended. When the constructions of the server, of its tool handlers and of
  the transport succeed, the session is in the table under the id from
  \<open>randomUUID()\<close>, with the current time as \<open>lastActivity\<close>, in the state in which
  \<open>server.connect\<close> is called, and nothing has been written on the channel by then.
  When \<open>server.connect\<close> succeeds as well, the channel then carries the chunks written
  by \<open>server.connect\<close> followed by the announcement
  \<open>{type: 'session', sessionId: <that id>}\<close> as its last chunk, the table is the one
  \<open>server.connect\<close> was called in, and the disconnect listeners are attached.
\<close>

theorem sse_open_registers_then_announces:
  assumes "newServer req = Inr srv" and "setupZabbixTools req = None"
      and "newTransport req = Inr tr" and "e_thrown (connect req) = None"
  shows "\<exists>st1 res1.
           sse_register req st = Inr (st1, res1) \<and>
           DAList.lookup (sessions st1) (randomUUID req) =
             Some \<lparr>server = srv, transport = tr, lastActivity = sse_now req\<rparr> \<and>
           chunks res1 = [] \<and> \<not> headersSent res1 \<and>
           sse_open req st = sse_connect req st1 res1 \<and>
           sessions (fst (sse_open req st)) = sessions st1 \<and>
           randomUUID req \<in> set (hooks (fst (sse_open req st))) \<and>
           chunks (snd (sse_open req st)) =
             e_frames (connect req) @ [session_announcement (randomUUID req)]"
proof -
  let ?st1 = "st\<lparr>sessions := DAList.update (randomUUID req)
                      \<lparr>server = srv, transport = tr, lastActivity = sse_now req\<rparr> (sessions st)\<rparr>"
  let ?res1 = "sse_headers fresh_response"
  have reg: "sse_register req st = Inr (?st1, ?res1)"
    by (rule sse_register_ok [OF assms(1-3)])
  have op: "sse_open req st = sse_connect req ?st1 ?res1"
    by (simp add: sse_open_def reg)
  have con: "sse_connect req ?st1 ?res1 =
               (?st1\<lparr>hooks := hooks ?st1 @ [randomUUID req]\<rparr>,
                res_write (session_announcement (randomUUID req))
                  (apply_effect (connect req) ?res1))"
    using assms(4) by (simp add: sse_connect_def Let_def)
  have ch: "chunks (snd (sse_open req st)) =
              e_frames (connect req) @ [session_announcement (randomUUID req)]"
    by (simp add: op con res_write_def chunks_apply_effect sse_headers_unsent)
  have "sessions (fst (sse_open req st)) = sessions ?st1"
    and "randomUUID req \<in> set (hooks (fst (sse_open req st)))"
    by (simp_all add: op con)
  with reg op ch sse_headers_unsent show ?thesis
    by (intro exI [of _ ?st1] exI [of _ ?res1]) simp
qed

text \<open>A request on which every step succeeds, on the empty table.\<close>

theorem sse_open_registers_then_announces_witness:
  "chunks (snd (sse_open open_ok initial_state)) =
     [endpoint_event ''t1'', session_announcement ''s1''] \<and>
   DAList.lookup (sessions (fst (sse_open open_ok initial_state))) ''s1'' =
     Some \<lparr>server = 3, transport = \<lparr>sessionId = ''t1''\<rparr>, lastActivity = 1000\<rparr>"
proof -
  have 1: "newServer open_ok = Inr 3" and 2: "setupZabbixTools open_ok = None"
    and 3: "newTransport open_ok = Inr \<lparr>sessionId = ''t1''\<rparr>"
    and 4: "e_thrown (connect open_ok) = None"
    by (simp_all add: open_ok_def)
  from sse_open_registers_then_announces [OF 1 2 3 4, of initial_state]
  show ?thesis by (auto simp: open_ok_def)
qed

text \<open>
  Claim C1 as stated fails. With the SDK transport writing its \<open>endpoint\<close> event during
  \<open>server.connect\<close>, the announcement is the second chunk on the channel, not the
  first; and when \<open>server.connect\<close> throws, no announcement is written at all.
\<close>

theorem sse_announcement_not_first:
  "hd (chunks (snd (sse_open open_ok initial_state))) \<noteq>
     session_announcement (randomUUID open_ok) \<and>
   session_announcement (randomUUID open_connect_fails) \<notin>
     set (chunks (snd (sse_open open_connect_fails initial_state)))"
  by (simp add: sse_open_def sse_register_def sse_connect_def sse_catch_def open_ok_def
      open_connect_fails_def initial_state_def apply_effect_def res_write_def
      session_announcement_def endpoint_event_def sse_headers_def setHeader_def
      fresh_response_def status_json_def)

lemma sse_register_failure:
  "setup_failure req = Some e \<Longrightarrow>
   sse_register req st = Inl (sse_catch e st (sse_headers fresh_response))"
  by (auto simp: setup_failure_def sse_register_def split: sum.splits option.splits)

lemma sse_register_success:
  "setup_failure req = None \<Longrightarrow>
   \<exists>srv tr. newServer req = Inr srv \<and> setupZabbixTools req = None \<and> newTransport req = Inr tr"
  by (auto simp: setup_failure_def split: sum.splits option.splits)

text \<open>
  Claim C7, as amended. When a step before the session is stored throws (the construction
  of the server, of its tool handlers or of the transport), the session table is the one
  before the request, and the request is answered with status 500 and the body
  \<open>{error: 'Failed to create SSE session'}\<close>. When \<open>server.connect\<close> throws, that
  500 response is sent exactly when \<open>server.connect\<close> had sent nothing on the response
  before it threw; otherwise the request gets no error response and no announcement.
\<close>

theorem sse_open_failure_response:
  "(setup_failure req = Some e \<longrightarrow>
      sessions (fst (sse_open req st)) = sessions st \<and>
      statusCode (snd (sse_open req st)) = 500 \<and>
      jsonBody (snd (sse_open req st)) = Some failed_to_create) \<and>
   (setup_failure req = None \<and> e_thrown (connect req) = Some e \<longrightarrow>
      (e_status (connect req) = None \<and> e_frames (connect req) = [] \<longrightarrow>
         statusCode (snd (sse_open req st)) = 500 \<and>
         jsonBody (snd (sse_open req st)) = Some failed_to_create) \<and>
      (\<not> (e_status (connect req) = None \<and> e_frames (connect req) = []) \<longrightarrow>
         jsonBody (snd (sse_open req st)) = None \<and>
         chunks (snd (sse_open req st)) = e_frames (connect req)))"
proof -
  have 1: "sessions (fst (sse_open req st)) = sessions st \<and>
           statusCode (snd (sse_open req st)) = 500 \<and>
           jsonBody (snd (sse_open req st)) = Some failed_to_create"
    if "setup_failure req = Some e"
    using sse_register_failure [OF that, of st] sse_headers_unsent
    by (simp add: sse_open_def sse_catch_def status_json_def failed_to_create_def)
  have 2: "(e_status (connect req) = None \<and> e_frames (connect req) = [] \<longrightarrow>
         statusCode (snd (sse_open req st)) = 500 \<and>
         jsonBody (snd (sse_open req st)) = Some failed_to_create) \<and>
      (\<not> (e_status (connect req) = None \<and> e_frames (connect req) = []) \<longrightarrow>
         jsonBody (snd (sse_open req st)) = None \<and>
         chunks (snd (sse_open req st)) = e_frames (connect req))"
    if ok: "setup_failure req = None" and thr: "e_thrown (connect req) = Some e"
  proof -
    from sse_register_success [OF ok] obtain srv tr where
      "newServer req = Inr srv" "setupZabbixTools req = None" "newTransport req = Inr tr"
      by blast
    from sse_register_ok [OF this, of st] obtain st1 where
      reg: "sse_register req st = Inr (st1, sse_headers fresh_response)" by blast
    have op: "sse_open req st =
                sse_catch e st1 (apply_effect (connect req) (sse_headers fresh_response))"
      using thr by (simp add: sse_open_def reg sse_connect_def Let_def)
    have body: "jsonBody (apply_effect (connect req) (sse_headers fresh_response)) = None"
      by (simp add: apply_effect_def Let_def sse_headers_def setHeader_def fresh_response_def
          split: option.splits)
    show ?thesis
      using sse_headers_unsent body
        headersSent_apply_effect [of "connect req" "sse_headers fresh_response"]
        chunks_apply_effect [of "connect req" "sse_headers fresh_response"]
      by (auto simp: op sse_catch_def status_json_def failed_to_create_def)
  qed
  from 1 2 show ?thesis by blast
qed

text \<open>
  A failing \<open>new Server\<close>, and a \<open>server.connect\<close> that throws before and after
  sending headers.
\<close>

theorem sse_open_failure_response_witness:
  "sessions (fst (sse_open open_server_fails two_sessions)) = sessions two_sessions \<and>
   statusCode (snd (sse_open open_server_fails two_sessions)) = 500 \<and>
   jsonBody (snd (sse_open open_server_fails two_sessions)) = Some failed_to_create \<and>
   statusCode (snd (sse_open open_connect_fails two_sessions)) = 500 \<and>
   jsonBody (snd (sse_open open_connect_fails_late two_sessions)) = None"
proof -
  have 1: "setup_failure open_server_fails = Some (JsError ''no server'' False)"
    by (simp add: setup_failure_def open_server_fails_def open_ok_def)
  have 2: "setup_failure open_connect_fails = None \<and>
           e_thrown (connect open_connect_fails) = Some (JsError ''connect failed'' False) \<and>
           e_status (connect open_connect_fails) = None \<and>
           e_frames (connect open_connect_fails) = []"
    by (simp add: setup_failure_def open_connect_fails_def open_ok_def)
  have 3: "setup_failure open_connect_fails_late = None \<and>
           e_thrown (connect open_connect_fails_late) = Some (JsError ''connect failed'' False) \<and>
           \<not> (e_status (connect open_connect_fails_late) = None \<and>
              e_frames (connect open_connect_fails_late) = [])"
    by (simp add: setup_failure_def open_connect_fails_late_def open_ok_def)
  from sse_open_failure_response [of open_server_fails "JsError ''no server'' False" two_sessions]
       sse_open_failure_response [of open_connect_fails "JsError ''connect failed'' False" two_sessions]
       sse_open_failure_response [of open_connect_fails_late "JsError ''connect failed'' False" two_sessions]
       1 2 3
  show ?thesis by blast
qed

text \<open>
  Claim C7 as stated fails. When \<open>server.connect\<close> throws after the response headers
  went out, the request that opened the stream gets no error response (the status stays
  200 and no body is sent), and the session stored before the call is still in the table.
\<close>

theorem sse_connect_failure_not_clean:
  "jsonBody (snd (sse_open open_connect_fails_late initial_state)) = None \<and>
   statusCode (snd (sse_open open_connect_fails_late initial_state)) = 200 \<and>
   DAList.lookup (sessions (fst (sse_open open_connect_fails_late initial_state))) ''s1'' =
     Some \<lparr>server = 3, transport = \<lparr>sessionId = ''t1''\<rparr>, lastActivity = 1000\<rparr> \<and>
   DAList.lookup (sessions (fst (sse_open open_connect_fails initial_state))) ''s1'' =
     Some \<lparr>server = 3, transport = \<lparr>sessionId = ''t1''\<rparr>, lastActivity = 1000\<rparr>"
  by (simp add: sse_open_def sse_register_def sse_connect_def sse_catch_def open_ok_def
      open_connect_fails_def open_connect_fails_late_def initial_state_def apply_effect_def
      sse_headers_def setHeader_def fresh_response_def status_json_def)

section \<open>Properties of \<open>ZabbixClient.request\<close>\<close>

lemma js_includes_sublist: "js_includes s sub \<longleftrightarrow> sublist sub s"
proof (induction s)
  case Nil
  then show ?case by simp
next
  case (Cons c cs)
  show ?case
  proof (cases sub)
    case Nil
    then show ?thesis by simp
  next
    case (Cons x xs)
    then show ?thesis using Cons.IH by (simp add: sublist_Cons_right)
  qed
qed

lemma sublist_glue_left:
  assumes "y \<notin> set xs"
  shows "sublist xs ((ys @ [y]) @ zs) \<longleftrightarrow> sublist xs (ys @ [y]) \<or> sublist xs zs"
proof -
  have "sublist xs zs"
    if "xs = xs1 @ xs2" "suffix xs1 (ys @ [y])" "prefix xs2 zs" for xs1 xs2
  proof (cases "xs1 = []")
    case True
    then show ?thesis using that by auto
  next
    case False
    from that(2) obtain us where "ys @ [y] = us @ xs1" by (auto simp: suffix_def)
    with False have "last xs1 = y" by (metis last_appendR last_snoc)
    with that(1) False have "y \<in> set xs" by (metis last_in_set Un_iff set_append)
    with assms show ?thesis by simp
  qed
  then show ?thesis by (subst sublist_append) blast
qed

lemma sublist_glue_right:
  assumes "z \<notin> set xs"
  shows "sublist xs (ys @ z # zs) \<longleftrightarrow> sublist xs ys \<or> sublist xs (z # zs)"
proof -
  have "sublist xs ys"
    if "xs = xs1 @ xs2" "suffix xs1 ys" "prefix xs2 (z # zs)" for xs1 xs2
  proof (cases "xs2 = []")
    case True
    then show ?thesis using that by auto
  next
    case False
    with that(3) have "hd xs2 = z" by (cases xs2) auto
    with that(1) False have "z \<in> set xs" by (metis hd_in_set Un_iff set_append)
    with assms show ?thesis by simp
  qed
  then show ?thesis by (subst sublist_append) blast
qed

lemma sublist_needs_hd: "sublist (x # xs) ys \<Longrightarrow> x \<in> set ys"
  by (auto simp: sublist_def)

lemma digit_in: "n < 10 \<Longrightarrow> digit n \<in> set ''0123456789''"
  unfolding digit_def by (rule nth_mem) simp

lemma show_nat_digits: "set (show_nat n) \<subseteq> set ''0123456789''"
proof (induction n rule: show_nat.induct)
  case (1 n)
  show ?case
  proof (cases "n < 10")
    case True
    then show ?thesis using digit_in [of n] by (subst show_nat.simps) simp
  next
    case False
    have "n mod 10 < 10" by simp
    from digit_in [OF this] 1 [OF False] False show ?thesis
      by (subst show_nat.simps) simp
  qed
qed

lemma show_int_no_a: "CHR ''a'' \<notin> set (show_int i)"
  using show_nat_digits [of "nat i"] show_nat_digits [of "nat (- i)"]
  by (auto simp: show_int_def)

lemma auth_in_error_text:
  assumes "\<not> js_includes pre ''auth''" and "pre = pre0 @ '' ''"
  shows "js_includes (pre @ msg @ '' ('' @ show_int code @ '')'') ''auth'' \<longleftrightarrow>
         js_includes msg ''auth''"
proof -
  have tail: "\<not> sublist ''auth'' ('' ('' @ show_int code @ '')'')"
  proof
    assume "sublist ''auth'' ('' ('' @ show_int code @ '')'')"
    from sublist_needs_hd [OF this] show False using show_int_no_a [of code] by simp
  qed
  have "sublist ''auth'' ((pre0 @ '' '') @ (msg @ '' ('' @ show_int code @ '')'')) \<longleftrightarrow>
        sublist ''auth'' (pre0 @ '' '') \<or> sublist ''auth'' (msg @ '' ('' @ show_int code @ '')'')"
    by (rule sublist_glue_left) simp
  moreover have "sublist ''auth'' (msg @ CHR '' '' # (''('' @ show_int code @ '')'')) \<longleftrightarrow>
        sublist ''auth'' msg \<or> sublist ''auth'' (CHR '' '' # (''('' @ show_int code @ '')''))"
    by (rule sublist_glue_right) simp
  ultimately show ?thesis
    using assms tail by (simp add: js_includes_sublist)
qed

lemma attempt_outcome_first:
  "attempt_outcome 0 r = Retry \<longleftrightarrow> recoverable_auth_error r"
proof (cases r)
  case (Rejects e)
  then show ?thesis
    by (simp add: attempt_outcome_def request_catch_def recoverable_auth_error_def
        maxAuthAttempts_def)
next
  case (Responds data)
  show ?thesis
  proof (cases "r_error data")
    case None
    then show ?thesis using Responds
      by (simp add: attempt_outcome_def recoverable_auth_error_def)
  next
    case (Some cm)
    obtain code msg where cm: "cm = (code, msg)" by (cases cm)
    have 1: "js_includes (''Zabbix API Error: '' @ msg @ '' ('' @ show_int code @ '')'') ''auth''
             \<longleftrightarrow> js_includes msg ''auth''"
      by (rule auth_in_error_text [where ?pre0.0 = "''Zabbix API Error:''"]) simp_all
    have 2: "js_includes (''Zabbix API Authorization Error: '' @ msg @ '' ('' @ show_int code @ '')'')
               ''auth'' \<longleftrightarrow> js_includes msg ''auth''"
      by (rule auth_in_error_text [where ?pre0.0 = "''Zabbix API Authorization Error:''"]) simp_all
    show ?thesis using Responds Some cm 1 2
      by (auto simp: attempt_outcome_def request_catch_def recoverable_auth_error_def
          maxAuthAttempts_def)
  qed
qed

lemma attempt_outcome_second: "attempt_outcome (Suc 0) r \<noteq> Retry"
  by (auto simp: attempt_outcome_def request_catch_def maxAuthAttempts_def
      split: reply.splits option.splits prod.splits)

lemma set_credentials_first:
  "tok \<noteq> [] \<Longrightarrow> method \<noteq> ''user.login'' \<Longrightarrow> method \<noteq> ''apiinfo.version'' \<Longrightarrow>
   set_credentials (Some tok) method 0
     \<lparr>p_method = method, p_params = params, p_id = n, p_auth = None, p_authorization = None\<rparr> =
   bearer_post method params n tok"
  by (simp add: set_credentials_def truthy_str_def bearer_post_def)

lemma set_credentials_second:
  "tok \<noteq> [] \<Longrightarrow> method \<noteq> ''user.login'' \<Longrightarrow> method \<noteq> ''apiinfo.version'' \<Longrightarrow>
   set_credentials (Some tok) method (Suc 0) (bearer_post method params n tok) =
   legacy_post method params n tok"
  by (simp add: set_credentials_def truthy_str_def bearer_post_def legacy_post_def)

lemma request_loop_second:
  "request_loop up tok method (Suc 0) p log =
     (case attempt_outcome (Suc 0) (up (log @ [set_credentials tok method (Suc 0) p])) of
        Done data \<Rightarrow> (Inr data, log @ [set_credentials tok method (Suc 0) p])
      | Fail e \<Rightarrow> (Inl e, log @ [set_credentials tok method (Suc 0) p])
      | Retry \<Rightarrow> (Inl (JsError ''All authentication methods failed'' False),
                  log @ [set_credentials tok method (Suc 0) p]))"
  using attempt_outcome_second [of "up (log @ [set_credentials tok method (Suc 0) p])"]
  by (subst request_loop.simps) (simp add: maxAuthAttempts_def Let_def split: attempt.splits)

lemma request_loop_first:
  "request_loop up tok method 0 p log =
     (case attempt_outcome 0 (up (log @ [set_credentials tok method 0 p])) of
        Done data \<Rightarrow> (Inr data, log @ [set_credentials tok method 0 p])
      | Fail e \<Rightarrow> (Inl e, log @ [set_credentials tok method 0 p])
      | Retry \<Rightarrow> request_loop up tok method (Suc 0) (set_credentials tok method 0 p)
                   (log @ [set_credentials tok method 0 p]))"
  by (subst request_loop.simps) (simp add: maxAuthAttempts_def Let_def split: attempt.splits)

lemma attempt_outcome_Done:
  "attempt_outcome n r = Done d \<longleftrightarrow> r = Responds d \<and> r_error d = None"
  by (auto simp: attempt_outcome_def request_catch_def
      split: reply.splits option.splits prod.splits if_splits)

text \<open>
  Claim C9. A request made by a client that holds a token (\<open>isAuthenticated()\<close>,
  the test \<open>this.authToken &&\<close> of the loop), for a method other than
  \<open>user.login\<close> and \<open>apiinfo.version\<close>, first posts with the header
  \<open>Authorization: Bearer <token>\<close> and no \<open>auth\<close> field. If the reply to that is
  not a recoverable authentication error, this is the only post. If it is, exactly one more
  post follows, without the header and with the token in the \<open>auth\<close> field of the
  payload; a reply without error to it is the result, and any other reply makes the
  request fail with an error. No request posts more than \<open>maxAuthAttempts = 2\<close> times.
\<close>

theorem request_bearer_then_legacy:
  assumes "isAuthenticated c" and "authToken c = Some tok"
      and "method \<noteq> ''user.login''" and "method \<noteq> ''apiinfo.version''"
  shows "(\<not> recoverable_auth_error (up (sent c @ [bearer_post method params (requestId c) tok])) \<longrightarrow>
            posts_between c (snd (request up method params c)) =
              [bearer_post method params (requestId c) tok]) \<and>
         (recoverable_auth_error (up (sent c @ [bearer_post method params (requestId c) tok])) \<longrightarrow>
            posts_between c (snd (request up method params c)) =
              [bearer_post method params (requestId c) tok,
               legacy_post method params (requestId c) tok] \<and>
            (\<forall>d. up (sent c @ [bearer_post method params (requestId c) tok,
                                legacy_post method params (requestId c) tok]) = Responds d \<and>
                 r_error d = None \<longrightarrow>
                 fst (request up method params c) = Inr d) \<and>
            ((\<forall>d. up (sent c @ [bearer_post method params (requestId c) tok,
                                 legacy_post method params (requestId c) tok]) = Responds d \<longrightarrow>
                  r_error d \<noteq> None) \<longrightarrow>
               (\<exists>e. fst (request up method params c) = Inl e))) \<and>
         length (posts_between c (snd (request up method params c))) \<le> 2 \<and>
         maxAuthAttempts = 2"
proof -
  let ?b = "bearer_post method params (requestId c) tok"
  let ?l = "legacy_post method params (requestId c) tok"
  let ?p = "\<lparr>p_method = method, p_params = params, p_id = requestId c, p_auth = None,
             p_authorization = None\<rparr>"
  have tok: "tok \<noteq> []"
    using assms(1,2) by (simp add: isAuthenticated_def truthy_str_def)
  have b: "set_credentials (Some tok) method 0 ?p = ?b"
    by (rule set_credentials_first [OF tok assms(3,4)])
  have l: "set_credentials (Some tok) method (Suc 0) ?b = ?l"
    by (rule set_credentials_second [OF tok assms(3,4)])
  have req: "request up method params c =
               (fst (request_loop up (Some tok) method 0 ?p (sent c)),
                c\<lparr>requestId := requestId c + 1,
                  sent := snd (request_loop up (Some tok) method 0 ?p (sent c))\<rparr>)"
    using assms(2) by (simp add: request_def Let_def split: prod.splits)
  have between: "posts_between c (snd (request up method params c)) =
                   drop (length (sent c)) (snd (request_loop up (Some tok) method 0 ?p (sent c)))"
    by (simp add: req posts_between_def)
  show ?thesis
  proof (cases "recoverable_auth_error (up (sent c @ [?b]))")
    case False
    then have "attempt_outcome 0 (up (sent c @ [?b])) \<noteq> Retry"
      by (simp add: attempt_outcome_first)
    then have "snd (request_loop up (Some tok) method 0 ?p (sent c)) = sent c @ [?b]"
      by (simp add: request_loop_first b split: attempt.splits)
    then show ?thesis using False
      by (simp add: between maxAuthAttempts_def)
  next
    case True
    then have retry: "attempt_outcome 0 (up (sent c @ [?b])) = Retry"
      by (simp add: attempt_outcome_first)
    let ?r2 = "up (sent c @ [?b, ?l])"
    have loop: "request_loop up (Some tok) method 0 ?p (sent c) =
                  (case attempt_outcome (Suc 0) ?r2 of
                     Done data \<Rightarrow> (Inr data, sent c @ [?b, ?l])
                   | Fail e \<Rightarrow> (Inl e, sent c @ [?b, ?l])
                   | Retry \<Rightarrow> (Inl (JsError ''All authentication methods failed'' False),
                               sent c @ [?b, ?l]))"
      by (simp add: request_loop_first b retry request_loop_second l split: attempt.splits)
    have posts: "snd (request_loop up (Some tok) method 0 ?p (sent c)) = sent c @ [?b, ?l]"
      by (simp add: loop split: attempt.splits)
    have ok: "fst (request up method params c) = Inr d"
      if "?r2 = Responds d \<and> r_error d = None" for d
    proof -
      from that have "attempt_outcome (Suc 0) ?r2 = Done d"
        by (simp only: attempt_outcome_Done)
      then show ?thesis by (simp add: req loop)
    qed
    have bad: "\<exists>e. fst (request up method params c) = Inl e"
      if "\<forall>d. ?r2 = Responds d \<longrightarrow> r_error d \<noteq> None"
    proof -
      from that have nd: "attempt_outcome (Suc 0) ?r2 \<noteq> Done d" for d
        by (simp only: attempt_outcome_Done) blast
      show ?thesis
      proof (cases "attempt_outcome (Suc 0) ?r2")
        case Retry
        then show ?thesis by (simp add: req loop)
      next
        case (Done d)
        with nd show ?thesis by blast
      next
        case (Fail e)
        then show ?thesis by (simp add: req loop)
      qed
    qed
    from True posts ok bad show ?thesis
      by (simp add: between maxAuthAttempts_def)
  qed
qed

text \<open>
  A \<open>host.get\<close> with the token \<open>tk\<close>: two posts against the upstream that wants
  the payload field, one against the upstream that takes the header, and an error after
  two posts against the upstream that refuses both.
\<close>

theorem request_bearer_then_legacy_witness:
  "posts_between logged_in (snd (request legacy_only ''host.get'' (JObj []) logged_in)) =
     [bearer_post ''host.get'' (JObj []) 5 ''tk'', legacy_post ''host.get'' (JObj []) 5 ''tk''] \<and>
   fst (request legacy_only ''host.get'' (JObj []) logged_in) = Inr no_hosts \<and>
   posts_between logged_in (snd (request bearer_only ''host.get'' (JObj []) logged_in)) =
     [bearer_post ''host.get'' (JObj []) 5 ''tk''] \<and>
   posts_between logged_in (snd (request rejects_all ''host.get'' (JObj []) logged_in)) =
     [bearer_post ''host.get'' (JObj []) 5 ''tk'', legacy_post ''host.get'' (JObj []) 5 ''tk''] \<and>
   (\<exists>e. fst (request rejects_all ''host.get'' (JObj []) logged_in) = Inl e)"
proof -
  have tok: "isAuthenticated logged_in" "authToken logged_in = Some ''tk''"
    and m: "''host.get'' \<noteq> ''user.login''" "''host.get'' \<noteq> ''apiinfo.version''"
    and n: "requestId logged_in = 5" "sent logged_in = []"
    by (simp_all add: logged_in_def isAuthenticated_def truthy_str_def)
  note inst = request_bearer_then_legacy [OF tok m, of _ "JObj []", unfolded n append_Nil]
  have 1: "recoverable_auth_error (legacy_only [bearer_post ''host.get'' (JObj []) 5 ''tk''])"
    by (simp add: legacy_only_def bearer_post_def unauthorized_def recoverable_auth_error_def)
  have 2: "legacy_only [bearer_post ''host.get'' (JObj []) 5 ''tk'',
                       legacy_post ''host.get'' (JObj []) 5 ''tk''] = Responds no_hosts \<and>
           r_error no_hosts = None"
    by (simp add: legacy_only_def legacy_post_def no_hosts_def)
  have 3: "\<not> recoverable_auth_error (bearer_only [bearer_post ''host.get'' (JObj []) 5 ''tk''])"
    by (simp add: bearer_only_def bearer_post_def no_hosts_def recoverable_auth_error_def)
  have 4: "recoverable_auth_error (rejects_all [bearer_post ''host.get'' (JObj []) 5 ''tk''])"
    by (simp add: rejects_all_def unauthorized_def recoverable_auth_error_def)
  have 5: "\<forall>d. rejects_all [bearer_post ''host.get'' (JObj []) 5 ''tk'',
                       legacy_post ''host.get'' (JObj []) 5 ''tk''] = Responds d \<longrightarrow>
               r_error d \<noteq> None"
    by (simp add: rejects_all_def unauthorized_def)
  from inst [of legacy_only] inst [of bearer_only] inst [of rejects_all] 1 2 3 4 5
  show ?thesis by blast
qed


section \<open>Properties of the read-only check\<close>

lemma validateReadOnly_rejects_iff:
  "validateReadOnly True operation = Inl (not_allowed operation) \<longleftrightarrow>
   \<not> (js_includes operation ''get'' \<or> js_includes operation ''list'' \<or>
      js_includes operation ''export'')"
  by (simp add: validateReadOnly_def)

text \<open>
  Claim C10. With the read-only flag set, \<open>validateReadOnly\<close> throws for an operation
  exactly when its name contains none of \<open>get\<close>, \<open>list\<close>, \<open>export\<close> as a
  contiguous run of characters, and returns normally for every name that contains one of
  them. \<open>proxmox_dashboard_add_widgets\<close> contains \<open>get\<close> (inside \<open>widgets\<close>), so the
  check lets it through.
\<close>

theorem validateReadOnly_substring_check:
  "(validateReadOnly True operation = Inl (not_allowed operation) \<longleftrightarrow>
      \<not> (\<exists>op \<in> {''get'', ''list'', ''export''}. \<exists>pre post. operation = pre @ op @ post)) \<and>
   ((\<exists>op \<in> {''get'', ''list'', ''export''}. \<exists>pre post. operation = pre @ op @ post) \<longrightarrow>
      validateReadOnly True operation = Inr ()) \<and>
   ''proxmox_dashboard_add_widgets'' = ''proxmox_dashboard_add_wid'' @ ''get'' @ ''s'' \<and>
   validateReadOnly True ''proxmox_dashboard_add_widgets'' = Inr ()"
proof -
  have inc: "(\<exists>op \<in> {''get'', ''list'', ''export''}. \<exists>pre post. operation = pre @ op @ post) \<longleftrightarrow>
             js_includes operation ''get'' \<or> js_includes operation ''list'' \<or>
             js_includes operation ''export''"
    by (simp add: js_includes_sublist sublist_def)
  have 1: "validateReadOnly True operation = Inl (not_allowed operation) \<longleftrightarrow>
      \<not> (\<exists>op \<in> {''get'', ''list'', ''export''}. \<exists>pre post. operation = pre @ op @ post)"
    unfolding inc by (rule validateReadOnly_rejects_iff)
  have 2: "validateReadOnly True operation = Inr ()"
    if "\<exists>op \<in> {''get'', ''list'', ''export''}. \<exists>pre post. operation = pre @ op @ post"
    using that unfolding inc by (auto simp: validateReadOnly_def)
  have 3: "validateReadOnly True ''proxmox_dashboard_add_widgets'' = Inr ()"
    by (simp add: validateReadOnly_def)
  from 1 2 3 show ?thesis by simp
qed

text \<open>\<open>host_get\<close> passes the check and \<open>host_create\<close> does not.\<close>

theorem validateReadOnly_substring_check_witness:
  "validateReadOnly True ''host_get'' = Inr () \<and>
   validateReadOnly True ''host_create'' = Inl (not_allowed ''host_create'')"
proof -
  have 1: "\<exists>op \<in> {''get'', ''list'', ''export''}. \<exists>pre post. ''host_get'' = pre @ op @ post"
    by (rule bexI [of _ "''get''"], rule exI [of _ "''host_''"], rule exI [of _ "[]"]) simp_all
  have 2: "\<not> (\<exists>op \<in> {''get'', ''list'', ''export''}. \<exists>pre post. ''host_create'' = pre @ op @ post)"
    using js_includes_sublist [of "''host_create''"]
    by (simp add: sublist_def [symmetric] flip: js_includes_sublist)
  from validateReadOnly_substring_check [of "''host_get''"]
       validateReadOnly_substring_check [of "''host_create''"] 1 2
  show ?thesis by blast
qed

section \<open>Properties of the tool handler\<close>

lemma grows_refl: "grows M c c"
  by (simp add: grows_def)

lemma grows_trans: "grows M c c' \<Longrightarrow> grows M c' c'' \<Longrightarrow> grows M c c''"
  by (fastforce simp: grows_def)

lemma grows_mono: "grows M c c' \<Longrightarrow> M \<subseteq> N \<Longrightarrow> grows N c c'"
  by (fastforce simp: grows_def)

lemma grows_authToken: "grows M (c\<lparr>authToken := t\<rparr>) c' \<Longrightarrow> grows M c c'"
  by (simp add: grows_def)

lemma grows_posts_between:
  "grows M c c' \<Longrightarrow> \<forall>p \<in> set (posts_between c c'). p_method p \<in> M"
  by (auto simp: grows_def posts_between_def)

lemma p_method_set_credentials: "p_method (set_credentials tok method n p) = p_method p"
  by (simp add: set_credentials_def)

lemma request_loop_log:
  "\<exists>ps. snd (request_loop up tok meth n p log) = log @ ps \<and>
        (\<forall>q \<in> set ps. p_method q = p_method p)"
proof (induction up tok meth n p log rule: request_loop.induct)
  case (1 up tok meth authAttempts p log)
  show ?case
  proof (cases "authAttempts < maxAuthAttempts")
    case False
    then show ?thesis by (subst request_loop.simps) simp
  next
    case True
    let ?p1 = "set_credentials tok meth authAttempts p"
    show ?thesis
    proof (cases "attempt_outcome authAttempts (up (log @ [?p1]))")
      case Retry
      from 1 [OF True refl refl Retry] obtain ps where
        ps: "snd (request_loop up tok meth (authAttempts + 1) ?p1 (log @ [?p1])) =
               (log @ [?p1]) @ ps" "\<forall>q \<in> set ps. p_method q = p_method ?p1"
        by blast
      have "snd (request_loop up tok meth authAttempts p log) = log @ (?p1 # ps)"
        using True Retry ps(1) by (subst request_loop.simps) (simp add: Let_def)
      moreover have "\<forall>q \<in> set (?p1 # ps). p_method q = p_method p"
        using ps(2) by (simp add: p_method_set_credentials)
      ultimately show ?thesis by blast
    next
      case (Done d)
      have "snd (request_loop up tok meth authAttempts p log) = log @ [?p1]"
        using True Done by (subst request_loop.simps) (simp add: Let_def)
      then show ?thesis by (simp add: p_method_set_credentials)
    next
      case (Fail e)
      have "snd (request_loop up tok meth authAttempts p log) = log @ [?p1]"
        using True Fail by (subst request_loop.simps) (simp add: Let_def)
      then show ?thesis by (simp add: p_method_set_credentials)
    qed
  qed
qed

lemma request_grows: "grows {method} c (snd (request up method params c))"
proof -
  let ?p = "\<lparr>p_method = method, p_params = params, p_id = requestId c, p_auth = None,
             p_authorization = None\<rparr>"
  from request_loop_log [of up "authToken c" "method" 0 ?p "sent c"]
  show ?thesis
    by (auto simp: grows_def request_def Let_def split: prod.splits)
qed

lemma request_grows':
  "request up method params c = (r, c') \<Longrightarrow> method \<in> M \<Longrightarrow> grows M c c'"
  using request_grows [of "method" c up params] by (auto intro: grows_mono)

lemma verifyConnectivity_grows:
  "verifyConnectivity up c = (b, c') \<Longrightarrow> grows {''apiinfo.version'', ''user.login'', ''host.get''} c c'"
  by (auto simp: verifyConnectivity_def split: prod.splits sum.splits intro: request_grows')

lemma login_grows:
  "grows {''apiinfo.version'', ''user.login'', ''host.get''} c (snd (login up c))"
proof -
  let ?M = "{''apiinfo.version'', ''user.login'', ''host.get''}"
  obtain b c1 where v: "verifyConnectivity up c = (b, c1)" by (cases "verifyConnectivity up c")
  have g1: "grows ?M c c1" by (rule verifyConnectivity_grows [OF v])
  have step: "grows ?M c1 c'" if "request up m params (c1\<lparr>authToken := t\<rparr>) = (r, c')"
    and "m \<in> ?M" for m params t r c'
    using request_grows' [OF that] by (rule grows_authToken)
  have step0: "grows ?M c1 c'" if "request up m params c1 = (r, c')" and "m \<in> ?M"
    for m params r c'
    using request_grows' [OF that] .
  have "grows ?M c1 (snd (login up c))"
  proof (cases b)
    case False
    then show ?thesis using v by (simp add: login_def grows_refl)
  next
    case True
    show ?thesis
    proof (cases "truthy_str (cfg_token (config c1))")
      case tk: True
      obtain r c3 where q: "request up ''host.get'' (JObj [(''limit'', JNum 1)])
          (c1\<lparr>authToken := cfg_token (config c1)\<rparr>) = (r, c3)"
        by (cases "request up ''host.get'' (JObj [(''limit'', JNum 1)])
          (c1\<lparr>authToken := cfg_token (config c1)\<rparr>)")
      from step [OF q] have "grows ?M c1 c3" by simp
      then show ?thesis using v True tk q
        by (simp add: login_def Let_def split: sum.splits)
    next
      case tk: False
      show ?thesis
      proof (cases "\<not> truthy_str (cfg_user (config c1)) \<or> \<not> truthy_str (cfg_password (config c1))")
        case True
        then show ?thesis using v \<open>b\<close> tk by (simp add: login_def grows_refl)
      next
        case up_ok: False
        let ?cred = "JObj [(''username'', JStr (the (cfg_user (config c1)))),
                           (''password'', JStr (the (cfg_password (config c1))))]"
        obtain r c2 where q1: "request up ''user.login'' ?cred c1 = (r, c2)"
          by (cases "request up ''user.login'' ?cred c1")
        from step0 [OF q1] have g2: "grows ?M c1 c2" by simp
        show ?thesis
        proof (cases r)
          case (Inl e)
          then show ?thesis using v \<open>b\<close> tk up_ok q1 g2 by (simp add: login_def)
        next
          case (Inr response)
          obtain r' c4 where q2: "request up ''host.get'' (JObj [(''limit'', JNum 1)])
              (c2\<lparr>authToken := token_of_result (r_result response)\<rparr>) = (r', c4)"
            by (cases "request up ''host.get'' (JObj [(''limit'', JNum 1)])
              (c2\<lparr>authToken := token_of_result (r_result response)\<rparr>)")
          have "grows ?M (c2\<lparr>authToken := token_of_result (r_result response)\<rparr>) c4"
            by (rule request_grows' [OF q2]) simp
          then have "grows ?M c2 c4" by (rule grows_authToken)
          with g2 have "grows ?M c1 c4" by (rule grows_trans)
          then show ?thesis using v \<open>b\<close> tk up_ok q1 Inr q2
            by (simp add: login_def Let_def split: sum.splits)
        qed
      qed
    qed
  qed
  with g1 show ?thesis by (rule grows_trans)
qed

lemma guarded_read_only:
  "\<not> js_includes op ''get'' \<Longrightarrow> \<not> js_includes op ''list'' \<Longrightarrow> \<not> js_includes op ''export'' \<Longrightarrow>
   guarded True op rest c = (Inl (not_allowed op), c)"
  by (simp add: guarded_def validateReadOnly_def)

lemma tool_switch_guarded:
  "tool_switch up True ''host_create'' args c = (Inl (not_allowed ''host_create''), c)"
  "tool_switch up True ''item_create'' args c = (Inl (not_allowed ''item_create''), c)"
  "tool_switch up True ''dashboard_create'' args c = (Inl (not_allowed ''dashboard_create''), c)"
  "tool_switch up True ''proxmox_dashboard_create_single'' args c = (Inl (not_allowed ''proxmox_dashboard_create_single''), c)"
  "tool_switch up True ''item_delete'' args c = (Inl (not_allowed ''item_delete''), c)"
  "tool_switch up True ''dashboard_update'' args c = (Inl (not_allowed ''dashboard_update''), c)"
  "tool_switch up True ''dashboard_delete'' args c = (Inl (not_allowed ''dashboard_delete''), c)"
  "tool_switch up True ''proxmox_dashboard_create_dual'' args c = (Inl (not_allowed ''proxmox_dashboard_create_dual''), c)"
  "tool_switch up True ''iops_item_create'' args c = (Inl (not_allowed ''iops_item_create''), c)"
  "tool_switch up True ''iops_dashboard_create'' args c = (Inl (not_allowed ''iops_dashboard_create''), c)"
  by (simp_all add: tool_switch_def guarded_read_only)

lemma tool_switch_read_only:
  assumes "name \<in> set guarded_tools" and "name \<noteq> ''proxmox_dashboard_add_widgets''"
  shows "tool_switch up True name args c = (Inl (not_allowed name), c)"
proof -
  have "list_all (\<lambda>n. n \<noteq> ''proxmox_dashboard_add_widgets'' \<longrightarrow>
          tool_switch up True n args c = (Inl (not_allowed n), c)) guarded_tools"
    unfolding guarded_tools_def list.pred_inject
    by (intro conjI impI tool_switch_guarded TrueI) simp_all
  with assms show ?thesis
    unfolding list_all_iff by blast
qed

lemma call_tool_authenticated:
  "isAuthenticated (zabbixClient srv) \<Longrightarrow>
   call_tool up name args srv =
     (case tool_switch up (readOnly srv) name args (zabbixClient srv) of
        (Inl e, c) \<Rightarrow> (Inl (api_error e), srv\<lparr>zabbixClient := c\<rparr>)
      | (Inr x, c) \<Rightarrow> (Inr x, srv\<lparr>zabbixClient := c\<rparr>))"
  by (simp add: call_tool_def split: prod.splits sum.splits)

lemma call_tool_unauthenticated:
  "\<not> isAuthenticated (zabbixClient srv) \<Longrightarrow>
   call_tool up name args srv =
     (case login up (zabbixClient srv) of
        (Inl e, c1) \<Rightarrow> (Inl (api_error e), srv\<lparr>zabbixClient := c1\<rparr>)
      | (Inr u, c1) \<Rightarrow>
          (case tool_switch up (readOnly srv) name args c1 of
             (Inl e, c) \<Rightarrow> (Inl (api_error e), srv\<lparr>zabbixClient := c\<rparr>)
           | (Inr x, c) \<Rightarrow> (Inr x, srv\<lparr>zabbixClient := c\<rparr>)))"
  by (simp add: call_tool_def split: prod.splits sum.splits)

text \<open>
  Claim C3, as amended. With the read-only flag set, a call of one of \<open>host_create\<close>,
  \<open>item_create\<close>, \<open>item_delete\<close>, \<open>dashboard_create\<close>, \<open>dashboard_update\<close>,
  \<open>dashboard_delete\<close>, \<open>proxmox_dashboard_create_single\<close>,
  \<open>proxmox_dashboard_create_dual\<close>, \<open>iops_item_create\<close>, \<open>iops_dashboard_create\<close>
  always ends in an error. On a client that is authenticated the error is the policy error
  \<open>Operation '<name>' is not allowed in read-only mode\<close> (wrapped as
  \<open>Zabbix API error: ...\<close>) and the state of the client is unchanged: nothing is posted
  to the upstream server. On a client that is not authenticated the handler runs
  \<open>login\<close> first; the error is then the policy error when \<open>login\<close> succeeds and the
  error of \<open>login\<close> otherwise, and the only posts made are those of \<open>login\<close>, for the
  methods \<open>apiinfo.version\<close>, \<open>user.login\<close> and \<open>host.get\<close>.
\<close>

theorem read_only_rejects_guarded_tools:
  assumes "readOnly srv" and "name \<in> set guarded_tools"
      and "name \<noteq> ''proxmox_dashboard_add_widgets''"
  shows "(isAuthenticated (zabbixClient srv) \<longrightarrow>
            call_tool up name args srv = (Inl (api_error (not_allowed name)), srv)) \<and>
         (\<not> isAuthenticated (zabbixClient srv) \<longrightarrow>
            call_tool up name args srv =
              (case login up (zabbixClient srv) of
                 (Inl e, c1) \<Rightarrow> (Inl (api_error e), srv\<lparr>zabbixClient := c1\<rparr>)
               | (Inr u, c1) \<Rightarrow> (Inl (api_error (not_allowed name)), srv\<lparr>zabbixClient := c1\<rparr>))) \<and>
         (\<exists>e. fst (call_tool up name args srv) = Inl e) \<and>
         (\<forall>p \<in> set (posts_between (zabbixClient srv)
                      (zabbixClient (snd (call_tool up name args srv)))).
            p_method p \<in> {''apiinfo.version'', ''user.login'', ''host.get''})"
proof -
  have sw: "tool_switch up (readOnly srv) name args c = (Inl (not_allowed name), c)" for c
    using assms by (simp add: tool_switch_read_only)
  have a: "call_tool up name args srv = (Inl (api_error (not_allowed name)), srv)"
    if "isAuthenticated (zabbixClient srv)"
    using that by (simp add: call_tool_authenticated sw)
  have u: "call_tool up name args srv =
              (case login up (zabbixClient srv) of
                 (Inl e, c1) \<Rightarrow> (Inl (api_error e), srv\<lparr>zabbixClient := c1\<rparr>)
               | (Inr u, c1) \<Rightarrow> (Inl (api_error (not_allowed name)), srv\<lparr>zabbixClient := c1\<rparr>))"
    if "\<not> isAuthenticated (zabbixClient srv)"
    using that by (simp add: call_tool_unauthenticated sw split: prod.splits sum.splits)
  have e: "\<exists>e. fst (call_tool up name args srv) = Inl e"
  proof (cases "isAuthenticated (zabbixClient srv)")
    case True
    then show ?thesis by (simp add: a)
  next
    case False
    then show ?thesis by (simp add: u split: prod.splits sum.splits)
  qed
  have p: "\<forall>p \<in> set (posts_between (zabbixClient srv)
                      (zabbixClient (snd (call_tool up name args srv)))).
            p_method p \<in> {''apiinfo.version'', ''user.login'', ''host.get''}"
  proof (cases "isAuthenticated (zabbixClient srv)")
    case True
    then show ?thesis by (simp add: a posts_between_def)
  next
    case False
    have "zabbixClient (snd (call_tool up name args srv)) = snd (login up (zabbixClient srv))"
      using False by (simp add: u split: prod.splits sum.splits)
    then show ?thesis
      using grows_posts_between [OF login_grows [of "zabbixClient srv" up]] by simp
  qed
  from a u e p show ?thesis by blast
qed

text \<open>
  \<open>host_create\<close> on a client that is logged in, and \<open>item_delete\<close> on a client that
  is not, with the upstream out of reach.
\<close>

theorem read_only_rejects_guarded_tools_witness:
  "call_tool rejects_all ''host_create'' None \<lparr>zabbixClient = logged_in, readOnly = True\<rparr> =
     (Inl (api_error (not_allowed ''host_create'')),
      \<lparr>zabbixClient = logged_in, readOnly = True\<rparr>) \<and>
   (\<exists>e. fst (call_tool unreachable ''item_delete'' None
              \<lparr>zabbixClient = fresh_client, readOnly = True\<rparr>) = Inl e)"
proof -
  have ro: "readOnly \<lparr>zabbixClient = c, readOnly = True\<rparr>" for c by simp
  have 1: "''host_create'' \<in> set guarded_tools" "''item_delete'' \<in> set guarded_tools"
    by (simp_all add: guarded_tools_def)
  have 2: "''host_create'' \<noteq> ''proxmox_dashboard_add_widgets''"
          "''item_delete'' \<noteq> ''proxmox_dashboard_add_widgets''"
    by simp_all
  have 3: "isAuthenticated (zabbixClient \<lparr>zabbixClient = logged_in, readOnly = True\<rparr>)"
    by (simp add: isAuthenticated_def logged_in_def truthy_str_def)
  from read_only_rejects_guarded_tools [OF ro 1(1) 2(1), of logged_in rejects_all None]
       read_only_rejects_guarded_tools [OF ro 1(2) 2(2), of fresh_client unreachable None] 3
  show ?thesis by blast
qed

lemma request_unreachable:
  "request unreachable ''apiinfo.version'' (JObj []) fresh_client =
     (Inl (JsError ''HTTP Error: connect ECONNREFUSED'' False),
      fresh_client\<lparr>requestId := 2,
        sent := [\<lparr>p_method = ''apiinfo.version'', p_params = JObj [], p_id = 1, p_auth = None,
                  p_authorization = None\<rparr>]\<rparr>)"
  by (simp add: request_def fresh_client_def request_loop_first set_credentials_def
      truthy_str_def unreachable_def attempt_outcome_def request_catch_def maxAuthAttempts_def)

text \<open>
  Claim C3 as stated fails. In read-only mode, \<open>host_create\<close> on a client that has not
  logged in yet posts \<open>apiinfo.version\<close> to the upstream server and, with the upstream
  out of reach, returns the connection error of \<open>login\<close>, not a policy error. And
  \<open>proxmox_dashboard_add_widgets\<close>, whose name contains \<open>get\<close>, returns its
  content without any error.
\<close>

theorem read_only_call_reaches_upstream:
  "call_tool unreachable ''host_create'' None \<lparr>zabbixClient = fresh_client, readOnly = True\<rparr> =
     (Inl (api_error cannot_connect),
      \<lparr>zabbixClient = fresh_client\<lparr>requestId := 2,
         sent := [\<lparr>p_method = ''apiinfo.version'', p_params = JObj [], p_id = 1, p_auth = None,
                   p_authorization = None\<rparr>]\<rparr>,
       readOnly = True\<rparr>) \<and>
   call_tool unreachable ''proxmox_dashboard_add_widgets'' widget_arguments
       \<lparr>zabbixClient = logged_in, readOnly = True\<rparr> =
     (Inr (Prepared ''proxmox_dashboard_add_widgets''),
      \<lparr>zabbixClient = logged_in, readOnly = True\<rparr>)"
proof -
  have 1: "login unreachable fresh_client =
             (Inl cannot_connect,
              fresh_client\<lparr>requestId := 2,
                sent := [\<lparr>p_method = ''apiinfo.version'', p_params = JObj [], p_id = 1,
                          p_auth = None, p_authorization = None\<rparr>]\<rparr>)"
    by (simp add: login_def verifyConnectivity_def request_unreachable cannot_connect_def)
  have 2: "\<not> isAuthenticated fresh_client"
    by (simp add: isAuthenticated_def fresh_client_def truthy_str_def)
  have 3: "isAuthenticated logged_in"
    by (simp add: isAuthenticated_def logged_in_def truthy_str_def)
  have 4: "tool_switch unreachable True ''proxmox_dashboard_add_widgets'' widget_arguments
             logged_in = (Inr (Prepared ''proxmox_dashboard_add_widgets''), logged_in)"
    by (simp add: tool_switch_def guarded_def validateReadOnly_def required_def missing_def
        field_def widget_arguments_def prepared_def)
  show ?thesis
    using 1 2 3 4 by (simp add: call_tool_def)
qed

end
